theory Spec2Isabelle
  imports Main
begin

section \<open>Characters and strings of the source language\<close>

text \<open>
  A JavaScript string is modelled as a \<open>string\<close>, a list of 8-bit code units, and an
  index read \<open>code[i]\<close> as \<open>char_at\<close>: it yields \<open>None\<close> (JavaScript's
  \<open>undefined\<close>) outside the string.  Wherever the source concatenates such a value
  to a string or hands it to a regular expression, JavaScript converts it to a string
  first; \<open>to_str\<close> is that conversion.  \<open>is_space\<close> is the class \<open>\s\<close> on these
  code units: tab, line feed, vertical tab, form feed, carriage return, space and the
  no-break space.
\<close>

definition char_at :: "string \<Rightarrow> nat \<Rightarrow> char option" where
  "char_at code i = (if i < length code then Some (code ! i) else None)"

definition to_str :: "char option \<Rightarrow> string" where
  "to_str ch = (case ch of None \<Rightarrow> ''undefined'' | Some c \<Rightarrow> [c])"

definition newline :: char where
  "newline = CHR 0x0A"

definition dquote :: char where
  "dquote = CHR 0x22"

definition squote :: char where
  "squote = CHR 0x27"

definition is_digit :: "char \<Rightarrow> bool" where
  "is_digit c = (let n = (of_char c :: nat) in 48 \<le> n \<and> n \<le> 57)"

definition is_alpha :: "char \<Rightarrow> bool" where
  "is_alpha c = (let n = (of_char c :: nat) in (65 \<le> n \<and> n \<le> 90) \<or> (97 \<le> n \<and> n \<le> 122))"

definition is_space :: "char \<Rightarrow> bool" where
  "is_space c = (of_char c \<in> {9, 10, 11, 12, 13, 32, 160 :: nat})"

text \<open>
  \<open>/[0-9]/.test(v)\<close>, \<open>/[a-zA-Z]/.test(v)\<close>, \<open>/[a-zA-Z0-9]/.test(v)\<close> and
  \<open>/\s/.test(v)\<close>: an unanchored character class matches when some character of the
  string form of \<open>v\<close> is in the class.
\<close>

definition test_digit :: "char option \<Rightarrow> bool" where
  "test_digit ch = list_ex is_digit (to_str ch)"

definition test_alpha :: "char option \<Rightarrow> bool" where
  "test_alpha ch = list_ex is_alpha (to_str ch)"

definition test_alnum :: "char option \<Rightarrow> bool" where
  "test_alnum ch = list_ex (\<lambda>c. is_alpha c \<or> is_digit c) (to_str ch)"

definition test_space :: "char option \<Rightarrow> bool" where
  "test_space ch = list_ex is_space (to_str ch)"

section \<open>The lexer of \<open>src/parser.js\<close>\<close>

datatype token_type =
  KEYWORD | IDENTIFIER | NUMBER | STRING | OPERATOR | PUNCTUATION | WHITESPACE | COMMENT | NEWLINE

record token =
  tok_type :: token_type
  tok_value :: string
  tok_line :: nat
  tok_start :: int
  tok_end :: int

datatype error =
  Thrown_TypeError string
| Undefined_read string

definition KEYWORDS :: "string list" where
  "KEYWORDS = [''const'', ''let'', ''var'', ''function'', ''return'', ''if'', ''else'', ''for'',
     ''while'', ''switch'', ''async'', ''await'']"

definition OPERATORS :: "string list" where
  "OPERATORS = [''+'', ''-'', ''*'', ''/'', ''='', ''=='', ''!='', ''<'', ''>'', ''>='', ''<='',
     ''&&'', ''||'', ''!'', ''+='', ''-='', ''?'', ''...'']"

definition PUNCTUATIONS :: "string list" where
  "PUNCTUATIONS = [''('', '')'', ''{'', ''}'', '';'', '','', ''.'', ''['', '']'']"

definition list_includes :: "string list \<Rightarrow> string \<Rightarrow> bool" where
  "list_includes xs s = List.member xs s"

text \<open>
  \<open>createToken(type, value)\<close> closes over \<open>line\<close> and \<open>current\<close> and reads them
  when it is called: \<open>start = current - value.length\<close>, \<open>end = current\<close>.
\<close>

definition createToken :: "nat \<Rightarrow> nat \<Rightarrow> token_type \<Rightarrow> string \<Rightarrow> token" where
  "createToken line current ty v =
     \<lparr>tok_type = ty, tok_value = v, tok_line = line,
      tok_start = int current - int (length v), tok_end = int current\<rparr>"

text \<open>
  The four inner scanning loops.  Each has the shape
  \<open>while (cond(char)) { value += char; char = code[++current]; }\<close>, with no test of
  \<open>current\<close> against \<open>code.length\<close>; a loop that never leaves is the value \<open>None\<close>.
  Strings are unbounded here.  An engine bounds them, so a loop that never leaves ends
  there when the value it keeps appending to outgrows the engine (a \<open>RangeError\<close>, or
  the memory is used up); the call returns no tokens either way.
\<close>

partial_function (option) comment_loop ::
  "string \<Rightarrow> nat \<Rightarrow> string \<Rightarrow> char option \<Rightarrow> (nat \<times> string \<times> char option) option" where
  "comment_loop code current v ch =
     (if ch \<noteq> Some newline
      then comment_loop code (current + 1) (v @ to_str ch) (char_at code (current + 1))
      else Some (current, v, ch))"

partial_function (option) number_loop ::
  "string \<Rightarrow> nat \<Rightarrow> string \<Rightarrow> char option \<Rightarrow> (nat \<times> string \<times> char option) option" where
  "number_loop code current v ch =
     (if test_digit ch
      then number_loop code (current + 1) (v @ to_str ch) (char_at code (current + 1))
      else Some (current, v, ch))"

partial_function (option) string_loop ::
  "string \<Rightarrow> char \<Rightarrow> nat \<Rightarrow> string \<Rightarrow> char option \<Rightarrow> (nat \<times> string \<times> char option) option" where
  "string_loop code quoteType current v ch =
     (if ch \<noteq> Some quoteType
      then string_loop code quoteType (current + 1) (v @ to_str ch) (char_at code (current + 1))
      else Some (current, v, ch))"

partial_function (option) ident_loop ::
  "string \<Rightarrow> nat \<Rightarrow> string \<Rightarrow> char option \<Rightarrow> (nat \<times> string \<times> char option) option" where
  "ident_loop code current v ch =
     (if test_alnum ch
      then ident_loop code (current + 1) (v @ to_str ch) (char_at code (current + 1))
      else Some (current, v, ch))"

text \<open>
  The main loop of \<open>tokenize\<close>, one token per iteration.  The result is \<open>None\<close> when
  the call never returns, \<open>Some (Inl e)\<close> when it throws \<open>e\<close> and \<open>Some (Inr tokens)\<close>
  when it returns \<open>tokens\<close>.
\<close>

partial_function (option) tokenize_loop ::
  "string \<Rightarrow> nat \<Rightarrow> nat \<Rightarrow> nat \<Rightarrow> token list \<Rightarrow> (error + token list) option" where
  "tokenize_loop code current line column tokens =
     (if current < length code then
        let char = code ! current in
        if char = newline then
          tokenize_loop code (current + 1) (line + 1) 0
            (tokens @ [\<lparr>tok_type = NEWLINE, tok_value = [char], tok_line = line + 1,
                        tok_start = int current, tok_end = int current + 1\<rparr>])
        else
          let column = column + 1 in
          if test_space (Some char) \<and> char \<noteq> newline then
            tokenize_loop code (current + 1) line column
              (tokens @ [createToken line current WHITESPACE [char]])
          else if char = CHR ''/'' \<and> char_at code (current + 1) = Some (CHR ''/'') then
            (case comment_loop code current [] (Some char) of
               None \<Rightarrow> None
             | Some (current', v, _) \<Rightarrow>
                 tokenize_loop code current' line column
                   (tokens @ [createToken line current' COMMENT v]))
          else if test_digit (Some char) then
            (case number_loop code current [] (Some char) of
               None \<Rightarrow> None
             | Some (current', v, _) \<Rightarrow>
                 tokenize_loop code current' line column
                   (tokens @ [createToken line current' NUMBER v]))
          else if char = dquote \<or> char = squote then
            (case string_loop code char (current + 1) [] (char_at code (current + 1)) of
               None \<Rightarrow> None
             | Some (current', v, _) \<Rightarrow>
                 tokenize_loop code (current' + 1) line column
                   (tokens @ [createToken line current' STRING (v @ [char])]))
          else if test_alpha (Some char) then
            (case ident_loop code current [] (Some char) of
               None \<Rightarrow> None
             | Some (current', v, _) \<Rightarrow>
                 tokenize_loop code current' line column
                   (tokens @ [createToken line current'
                                (if list_includes KEYWORDS v then KEYWORD else IDENTIFIER) v]))
          else if list_includes OPERATORS [char] then
            (let v = [char]; char' = char_at code (current + 1) in
             if list_includes OPERATORS (v @ to_str char')
             then tokenize_loop code (current + 2) line column
                    (tokens @ [createToken line (current + 2) OPERATOR (v @ to_str char')])
             else tokenize_loop code (current + 1) line column
                    (tokens @ [createToken line (current + 1) OPERATOR v]))
          else if list_includes PUNCTUATIONS [char] then
            tokenize_loop code (current + 1) line column
              (tokens @ [createToken line current PUNCTUATION [char]])
          else Some (Inl (Thrown_TypeError (''Unexpected character: '' @ [char])))
      else Some (Inr tokens))"

declare comment_loop.simps [code]
declare number_loop.simps [code]
declare string_loop.simps [code]
declare ident_loop.simps [code]
declare tokenize_loop.simps [code]

definition tokenize :: "string \<Rightarrow> (error + token list) option" where
  "tokenize code = tokenize_loop code 0 1 0 []"

section \<open>The parser of \<open>src/parser.js\<close>\<close>

text \<open>
  Every node object carries \<open>line\<close>, \<open>start\<close> and \<open>end\<close>, copied from one token.
  \<open>null\<close> is a value a node variable may hold, so it is a constructor.
\<close>

record pos =
  pos_line :: nat
  pos_start :: int
  pos_end :: int

datatype node =
  Null
| Literal string pos
| Identifier string pos
| BinaryExpression string node node pos
| ReturnStatement node pos
| VariableDeclarator node node
| VariableDeclaration "node list" string pos
| BlockStatement "node list" "pos option"
| FunctionDeclaration node "node list" node pos
| Program "node list" pos

definition token_pos :: "token \<Rightarrow> pos" where
  "token_pos token =
     \<lparr>pos_line = tok_line token, pos_start = tok_start token, pos_end = tok_end token\<rparr>"

definition skipTokens :: "token_type list" where
  "skipTokens = [WHITESPACE, NEWLINE, COMMENT]"

definition variableKeywords :: "string list" where
  "variableKeywords = [''const'', ''let'', ''var'']"

definition skipPunctuation :: "string list" where
  "skipPunctuation = ['';'', '','', ''('', '')'']"

text \<open>
  Sequencing of calls that may throw or never return: \<open>None\<close> is a call that does not
  return, \<open>Some (Inl e)\<close> one that throws \<open>e\<close>.
\<close>

definition bind_result :: "(error + 'a) option \<Rightarrow> ('a \<Rightarrow> (error + 'b) option) \<Rightarrow> (error + 'b) option" where
  "bind_result m f = (case m of None \<Rightarrow> None | Some (Inl e) \<Rightarrow> Some (Inl e) | Some (Inr x) \<Rightarrow> f x)"

lemma bind_result_cong [fundef_cong]:
  "m = m' \<Longrightarrow> (\<And>x. m' = Some (Inr x) \<Longrightarrow> f x = f' x) \<Longrightarrow> bind_result m f = bind_result m' f'"
  by (auto simp: bind_result_def split: option.splits sum.splits)

text \<open>
  \<open>tokens[current].type === ty && tokens[current].value === v\<close> behind the guard
  \<open>current < tokens.length\<close>.
\<close>

definition token_is :: "token list \<Rightarrow> nat \<Rightarrow> token_type \<Rightarrow> string \<Rightarrow> bool" where
  "token_is tokens current ty v =
     (current < length tokens \<and> tok_type (tokens ! current) = ty \<and> tok_value (tokens ! current) = v)"

text \<open>
  The loop at the head of \<open>walk\<close> that skips whitespace, newline and comment tokens.
  It yields \<open>None\<close> for the token when the list ends (\<open>walk\<close> then returns \<open>null\<close>).
\<close>

function skip_loop :: "token list \<Rightarrow> nat \<Rightarrow> token \<Rightarrow> token option \<times> nat" where
  "skip_loop tokens current token =
     (if List.member skipTokens (tok_type token) then
        (if current + 1 \<ge> length tokens then (None, current + 1)
         else skip_loop tokens (current + 1) (tokens ! (current + 1)))
      else (Some token, current))"
  by pat_completeness auto
termination
  by (relation "measure (\<lambda>(tokens, current, token). length tokens - current)") auto

declare skip_loop.simps [simp del]

text \<open>
  \<open>walk\<close> and its two loops (the parameter list of a function declaration, and the body
  of a function declaration or block, whose code is the same text twice).  The first
  argument bounds the depth of calls and the number of loop iterations; \<open>None\<close> is
  returned when it is used up.  \<open>body_loop\<close> returns \<open>None\<close> in place of the body
  when the loop leaves \<open>walk\<close> by \<open>return null\<close>.
\<close>

function (sequential) walk :: "nat \<Rightarrow> token list \<Rightarrow> nat \<Rightarrow> (error + node \<times> nat) option"
and params_loop :: "nat \<Rightarrow> token list \<Rightarrow> nat \<Rightarrow> node list \<Rightarrow> (error + node list \<times> nat) option"
and body_loop :: "nat \<Rightarrow> token list \<Rightarrow> nat \<Rightarrow> token \<Rightarrow> node list
                    \<Rightarrow> (error + (node list \<times> token) option \<times> nat) option"
where
  "walk 0 tokens current = None"
| "walk (Suc n) tokens current =
     (if current \<ge> length tokens then Some (Inr (Null, current))
      else
        case skip_loop tokens current (tokens ! current) of
          (None, current) \<Rightarrow> Some (Inr (Null, current))
        | (Some token, current) \<Rightarrow>
            if tok_type token = NUMBER then
              Some (Inr (Literal (tok_value token) (token_pos token), current + 1))
            else if tok_type token = STRING then
              Some (Inr (Literal (tok_value token) (token_pos token), current + 1))
            else if tok_type token = IDENTIFIER then
              Some (Inr (Identifier (tok_value token) (token_pos token), current + 1))
            else if tok_type token = OPERATOR then
              bind_result (walk n tokens (current + 1)) (\<lambda>(left, current).
              bind_result (walk n tokens current) (\<lambda>(right, current).
                if left = Null \<or> right = Null then Some (Inr (Null, current))
                else Some (Inr (BinaryExpression (tok_value token) left right (token_pos token),
                                current))))
            else if tok_type token = KEYWORD \<and> tok_value token = ''return'' then
              bind_result (walk n tokens (current + 1)) (\<lambda>(argument, current).
                let current = (if token_is tokens current PUNCTUATION '';''
                               then current + 1 else current)
                in Some (Inr (ReturnStatement argument (token_pos token), current)))
            else if tok_type token = KEYWORD \<and> tok_value token = ''const'' then
              bind_result (walk n tokens (current + 1)) (\<lambda>(id, current).
              bind_result (if token_is tokens current OPERATOR ''=''
                           then walk n tokens (current + 1)
                           else Some (Inr (Null, current))) (\<lambda>(init, current).
                let current = (if token_is tokens current PUNCTUATION '';''
                               then current + 1 else current)
                in Some (Inr (VariableDeclaration [VariableDeclarator id init] ''const''
                                (token_pos token), current))))
            else if tok_type token = KEYWORD \<and> tok_value token = ''function'' then
              bind_result (walk n tokens (current + 1)) (\<lambda>(id, current).
              bind_result (params_loop n tokens (current + 1) []) (\<lambda>(params, current).
              bind_result (body_loop n tokens (current + 2) token []) (\<lambda>(r, current).
                case r of
                  None \<Rightarrow> Some (Inr (Null, current))
                | Some (body, token) \<Rightarrow>
                    Some (Inr (FunctionDeclaration id params (BlockStatement body None)
                                 (token_pos token), current + 1)))))
            else if tok_type token = PUNCTUATION \<and> tok_value token = ''{'' then
              bind_result (body_loop n tokens (current + 1) token []) (\<lambda>(r, current).
                case r of
                  None \<Rightarrow> Some (Inr (Null, current))
                | Some (body, token) \<Rightarrow>
                    Some (Inr (BlockStatement body (Some (token_pos token)), current + 1)))
            else if tok_type token = PUNCTUATION \<and> List.member skipPunctuation (tok_value token) then
              Some (Inr (Null, current + 1))
            else Some (Inr (Null, current)))"
| "params_loop 0 tokens current params = None"
| "params_loop (Suc n) tokens current params =
     (if current \<ge> length tokens then Some (Inl (Undefined_read ''type''))
      else if tok_type (tokens ! current) \<noteq> PUNCTUATION \<or> tok_value (tokens ! current) \<noteq> '')'' then
        bind_result (walk n tokens current) (\<lambda>(param, current).
          if current \<ge> length tokens then Some (Inl (Undefined_read ''type''))
          else params_loop n tokens
                 (if tok_type (tokens ! current) = PUNCTUATION \<and> tok_value (tokens ! current) = '',''
                  then current + 1 else current)
                 (params @ [param]))
      else Some (Inr (params, current)))"
| "body_loop 0 tokens current token body = None"
| "body_loop (Suc n) tokens current token body =
     (if current \<ge> length tokens then Some (Inl (Undefined_read ''type''))
      else if tok_type (tokens ! current) \<noteq> PUNCTUATION \<or> tok_value (tokens ! current) \<noteq> ''}'' then
        bind_result (walk n tokens current) (\<lambda>(stmt, current).
          if current \<ge> length tokens then Some (Inr (None, current))
          else body_loop n tokens current (tokens ! current) (body @ [stmt]))
      else Some (Inr (Some (body, token), current)))"
  by pat_completeness auto
termination
  by (relation "measure (\<lambda>x. case x of Inl (n, _) \<Rightarrow> n | Inr (Inl (n, _)) \<Rightarrow> n
                                   | Inr (Inr (n, _)) \<Rightarrow> n)") auto

text \<open>
  \<open>parse\<close>: the \<open>Program\<close> object is built first, reading \<open>tokens[0].line\<close>, which
  throws on an empty array; then the loop pushes every non-null node \<open>walk\<close> returns.
\<close>

fun parse_loop :: "nat \<Rightarrow> token list \<Rightarrow> nat \<Rightarrow> node list \<Rightarrow> (error + node list) option" where
  "parse_loop 0 tokens current body = None"
| "parse_loop (Suc n) tokens current body =
     (if current < length tokens then
        bind_result (walk n tokens current) (\<lambda>(node, current).
          parse_loop n tokens current (if node \<noteq> Null then body @ [node] else body))
      else Some (Inr body))"

definition parse :: "nat \<Rightarrow> token list \<Rightarrow> (error + node) option" where
  "parse n tokens =
     (if tokens = [] then Some (Inl (Undefined_read ''line''))
      else
        let ast_pos = \<lparr>pos_line = tok_line (tokens ! 0), pos_start = tok_start (tokens ! 0),
                         pos_end = tok_end (tokens ! (length tokens - 1))\<rparr>
        in bind_result (parse_loop n tokens 0 []) (\<lambda>body. Some (Inr (Program body ast_pos))))"

section \<open>The lexer of \<open>src/unnamed/part_000\<close>\<close>

text \<open>
  The second lexer.  Its tokens are \<open>{type, value, range: [start, end], loc}\<close> with the
  type a string; \<open>insideString\<close> is declared \<open>false\<close> and never assigned.
\<close>

record position =
  p_line :: nat
  p_column :: nat

record loc =
  loc_start :: position
  loc_end :: position

record token_b =
  b_type :: string
  b_value :: string
  b_range :: "nat \<times> nat"
  b_loc :: loc

definition createLoc :: "nat \<Rightarrow> nat \<Rightarrow> nat \<Rightarrow> nat \<Rightarrow> loc" where
  "createLoc startLine startColumn endLine endColumn =
     \<lparr>loc_start = \<lparr>p_line = startLine, p_column = startColumn\<rparr>,
      loc_end = \<lparr>p_line = endLine, p_column = endColumn\<rparr>\<rparr>"

definition addToken :: "token_b list \<Rightarrow> string \<Rightarrow> string \<Rightarrow> nat \<Rightarrow> nat \<Rightarrow> loc \<Rightarrow> token_b list" where
  "addToken tokens ty v start end' l =
     tokens @ [\<lparr>b_type = ty, b_value = v, b_range = (start, end'), b_loc = l\<rparr>]"

definition keywords_b :: "string list" where
  "keywords_b = [''let'', ''const'', ''var'', ''if'', ''else'', ''while'', ''for'', ''function'',
     ''async'', ''await'']"

definition is_ident_start :: "char \<Rightarrow> bool" where
  "is_ident_start c = (is_alpha c \<or> c = CHR ''_'')"

definition is_ident_part :: "char \<Rightarrow> bool" where
  "is_ident_part c = (is_alpha c \<or> is_digit c \<or> c = CHR ''_'')"

function numeric_loop :: "string \<Rightarrow> nat \<Rightarrow> nat \<Rightarrow> string \<Rightarrow> nat \<times> nat \<times> string" where
  "numeric_loop source current column numValue =
     (if current < length source \<and> is_digit (source ! current)
      then numeric_loop source (current + 1) (column + 1) (numValue @ [source ! current])
      else (current, column, numValue))"
  by pat_completeness auto
termination
  by (relation "measure (\<lambda>(source, current, column, numValue). length source - current)") auto

declare numeric_loop.simps [simp del]

function identifier_loop :: "string \<Rightarrow> nat \<Rightarrow> nat \<Rightarrow> string \<Rightarrow> nat \<times> nat \<times> string" where
  "identifier_loop source current column idValue =
     (if current < length source \<and> is_ident_part (source ! current)
      then identifier_loop source (current + 1) (column + 1) (idValue @ [source ! current])
      else (current, column, idValue))"
  by pat_completeness auto
termination
  by (relation "measure (\<lambda>(source, current, column, idValue). length source - current)") auto

declare identifier_loop.simps [simp del]

lemma numeric_loop_current: "current \<le> fst (numeric_loop source current column numValue)"
proof (induction source current column numValue rule: numeric_loop.induct)
  case (1 source current column numValue)
  show ?case
    using "1" by (subst numeric_loop.simps) (auto simp del: numeric_loop.simps)
qed

lemma identifier_loop_current: "current \<le> fst (identifier_loop source current column idValue)"
proof (induction source current column idValue rule: identifier_loop.induct)
  case (1 source current column idValue)
  show ?case
    using "1" by (subst identifier_loop.simps) (auto simp del: identifier_loop.simps)
qed

function tokenize_b_loop ::
  "string \<Rightarrow> nat \<Rightarrow> nat \<Rightarrow> nat \<Rightarrow> bool \<Rightarrow> bool \<Rightarrow> token_b list \<Rightarrow> token_b list" where
  "tokenize_b_loop source current line column insideString insideRegex tokens =
     (if current < length source then
        let char = source ! current; tokenStart = current; startLine = line; startColumn = column in
        if char = newline \<and> \<not> insideString \<and> \<not> insideRegex then
          tokenize_b_loop source (current + 1) (line + 1) 0 insideString insideRegex
            (addToken tokens ''Newline'' [char] tokenStart (tokenStart + 1)
               (createLoc startLine startColumn line (column + 1)))
        else if is_space char then
          tokenize_b_loop source (current + 1) line (column + 1) insideString insideRegex
            (addToken tokens ''Whitespace'' [char] tokenStart (tokenStart + 1)
               (createLoc startLine startColumn line (column + 1)))
        else if char = CHR ''/'' \<and> \<not> insideString then
          tokenize_b_loop source (current + 1) line (column + 1) insideString (\<not> insideRegex)
            (addToken tokens ''Regex'' [char] tokenStart (tokenStart + 1)
               (createLoc startLine startColumn line (column + 1)))
        else if is_digit char then
          (case numeric_loop source (current + 1) (column + 1) [char] of
             (current', column', numValue) \<Rightarrow>
               tokenize_b_loop source current' line column' insideString insideRegex
                 (addToken tokens ''Numeric'' numValue tokenStart current'
                    (createLoc startLine startColumn line column')))
        else if is_ident_start char then
          (case identifier_loop source (current + 1) (column + 1) [char] of
             (current', column', idValue) \<Rightarrow>
               tokenize_b_loop source current' line column' insideString insideRegex
                 (addToken tokens
                    (if List.member keywords_b idValue then ''Keyword'' else ''Identifier'')
                    idValue tokenStart current'
                    (createLoc startLine startColumn line column')))
        else
          tokenize_b_loop source (current + 1) line (column + 1) insideString insideRegex
            (addToken tokens ''Punctuation'' [char] tokenStart (tokenStart + 1)
               (createLoc startLine startColumn line (column + 1)))
      else tokens)"
  by pat_completeness auto
termination
proof (relation "measure (\<lambda>(source, current, rest). length source - current)", goal_cases)
  case 1
  show ?case by simp
next
  case (5 source current line column insideString insideRegex tokens char tokenStart startLine startColumn x y)
  then show ?case
    using numeric_loop_current [of "current + 1" source "column + 1" "[source ! current]"]
    by (auto dest: arg_cong [where f = fst])
next
  case (6 source current line column insideString insideRegex tokens char tokenStart startLine startColumn x y)
  then show ?case
    using identifier_loop_current [of "current + 1" source "column + 1" "[source ! current]"]
    by (auto dest: arg_cong [where f = fst])
qed auto

declare tokenize_b_loop.simps [simp del]

definition tokenize_b :: "string \<Rightarrow> token_b list" where
  "tokenize_b source = tokenize_b_loop source 0 1 0 False False []"

section \<open>The second parser of \<open>src/parser.js\<close>\<close>

text \<open>
  The second \<open>parse\<close> of the file works on the tokens of the second lexer.  It builds a
  \<open>Program\<close> whose body is a list of \<open>ExpressionStatement\<close> objects, each holding the
  tokens it collected, and it guards every read of the token array by
  \<open>tokens.length\<close>.  \<open>parseExpressionStatement\<close> is only called inside the main loop,
  where \<open>current < tokens.length\<close> holds.
\<close>

record statement =
  st_tokens :: "token_b list"
  st_range :: "nat \<times> nat"
  st_loc :: loc

record program_b =
  pb_body :: "statement list"
  pb_tokens :: "token_b list"
  pb_range :: "nat \<times> nat"
  pb_loc :: loc

function statement_loop :: "token_b list \<Rightarrow> nat \<Rightarrow> token_b list \<Rightarrow> token_b list \<times> nat" where
  "statement_loop tokens current collected =
     (if current < length tokens \<and> b_type (tokens ! current) \<noteq> ''Punctuation''
         \<and> b_type (tokens ! current) \<noteq> ''NewLine''
      then statement_loop tokens (current + 1) (collected @ [tokens ! current])
      else (collected, current))"
  by pat_completeness auto
termination
  by (relation "measure (\<lambda>(tokens, current, collected). length tokens - current)") auto

declare statement_loop.simps [simp del]

definition parseExpressionStatement :: "token_b list \<Rightarrow> nat \<Rightarrow> statement \<times> nat" where
  "parseExpressionStatement tokens current =
     (let startToken = tokens ! current in
      case statement_loop tokens current [] of
        (collected, current) \<Rightarrow>
          (if collected \<noteq> [] then
             \<lparr>st_tokens = collected,
              st_range = (fst (b_range startToken), snd (b_range (last collected))),
              st_loc = \<lparr>loc_start = loc_start (b_loc startToken),
                        loc_end = loc_end (b_loc (last collected))\<rparr>\<rparr>
           else
             \<lparr>st_tokens = collected,
              st_range = (fst (b_range startToken), snd (b_range startToken)),
              st_loc = \<lparr>loc_start = loc_start (b_loc startToken),
                        loc_end = loc_end (b_loc startToken)\<rparr>\<rparr>,
           current))"

fun parse_b_loop :: "nat \<Rightarrow> token_b list \<Rightarrow> nat \<Rightarrow> statement list \<Rightarrow> statement list option" where
  "parse_b_loop 0 tokens current body = None"
| "parse_b_loop (Suc n) tokens current body =
     (if current < length tokens then
        let token = tokens ! current in
        if b_type token = ''Whitespace'' \<or> b_type token = ''NewLine'' then
          parse_b_loop n tokens (current + 1) body
        else
          case parseExpressionStatement tokens current of
            (stmt, current) \<Rightarrow>
              parse_b_loop n tokens
                (if current < length tokens
                    \<and> (b_value (tokens ! current) = '';'' \<or> b_type (tokens ! current) = ''NewLine'')
                 then current + 1 else current)
                (body @ [stmt])
      else Some body)"

definition parse_b :: "nat \<Rightarrow> token_b list \<Rightarrow> program_b option" where
  "parse_b n tokens =
     (case parse_b_loop n tokens 0 [] of
        None \<Rightarrow> None
      | Some body \<Rightarrow>
          Some \<lparr>pb_body = body, pb_tokens = tokens,
                pb_range = (if tokens \<noteq> [] then fst (b_range (tokens ! 0)) else 0,
                            if tokens \<noteq> [] then snd (b_range (tokens ! (length tokens - 1))) else 0),
                pb_loc = \<lparr>loc_start = (if tokens \<noteq> [] then loc_start (b_loc (tokens ! 0))
                                        else \<lparr>p_line = 1, p_column = 0\<rparr>),
                          loc_end = (if tokens \<noteq> [] then loc_end (b_loc (tokens ! (length tokens - 1)))
                                      else \<lparr>p_line = 1, p_column = 0\<rparr>)\<rparr>\<rparr>)"

section \<open>Notions used to state the properties\<close>

text \<open>
  The demo script \<open>src/unnamed/part_001\<close> calls \<open>parse(tokenize(code))\<close>; an
  exception or a non-returning call of \<open>tokenize\<close> is one of the whole.
\<close>

definition parse_source :: "nat \<Rightarrow> string \<Rightarrow> (error + node) option" where
  "parse_source n code = bind_result (tokenize code) (parse n)"

text \<open>A token whose end offset minus its start offset is the length of its value.\<close>

definition well_formed :: "token \<Rightarrow> bool" where
  "well_formed t = (tok_end t - tok_start t = int (length (tok_value t)))"

definition well_formed_b :: "token_b \<Rightarrow> bool" where
  "well_formed_b t = (int (snd (b_range t)) - int (fst (b_range t)) = int (length (b_value t)))"

text \<open>
  A character on which every test of the main loop of \<open>tokenize\<close> fails, in the order
  the loop makes them (a \<open>/\<close> is an operator, so the comment test needs no clause).
\<close>

definition unmatched :: "char \<Rightarrow> bool" where
  "unmatched c =
     (c \<noteq> newline \<and> \<not> test_space (Some c) \<and> \<not> test_digit (Some c) \<and> c \<noteq> dquote \<and> c \<noteq> squote
      \<and> \<not> test_alpha (Some c) \<and> \<not> list_includes OPERATORS [c] \<and> \<not> list_includes PUNCTUATIONS [c])"

text \<open>
  The tokens \<open>walk\<close> skips, a cursor from which only such tokens remain (or none), and
  a cursor from which the skipping loop of \<open>walk\<close> reaches the token at \<open>i\<close>.
\<close>

definition is_skip :: "token \<Rightarrow> bool" where
  "is_skip t = List.member skipTokens (tok_type t)"

definition only_skip_from :: "token list \<Rightarrow> nat \<Rightarrow> bool" where
  "only_skip_from tokens c = list_all is_skip (drop c tokens)"

definition skips_to :: "token list \<Rightarrow> nat \<Rightarrow> nat \<Rightarrow> bool" where
  "skips_to tokens current i =
     (current \<le> i \<and> i < length tokens \<and> list_all is_skip (take (i - current) (drop current tokens))
      \<and> \<not> is_skip (tokens ! i))"

text \<open>
  A character that fails every test of the second lexer before its last branch
  (\<open>For any other character, treat it as punctuation\<close>); such a character is not a
  newline, which is whitespace.
\<close>

definition other_character :: "char \<Rightarrow> bool" where
  "other_character c = (\<not> is_space c \<and> c \<noteq> CHR ''/'' \<and> \<not> is_digit c \<and> \<not> is_ident_start c)"

text \<open>
  The tokens \<open>tokenize\<close> returns on three sources: \<open>+ 1\<close> followed by a space,
  \<open>{ 1\<close> followed by a space, and \<open>1;\<close>.
\<close>

definition tokens_plus_one :: "token list" where
  "tokens_plus_one =
     [\<lparr>tok_type = OPERATOR, tok_value = ''+'', tok_line = 1, tok_start = 0, tok_end = 1\<rparr>,
      \<lparr>tok_type = WHITESPACE, tok_value = '' '', tok_line = 1, tok_start = 0, tok_end = 1\<rparr>,
      \<lparr>tok_type = NUMBER, tok_value = ''1'', tok_line = 1, tok_start = 2, tok_end = 3\<rparr>,
      \<lparr>tok_type = WHITESPACE, tok_value = '' '', tok_line = 1, tok_start = 2, tok_end = 3\<rparr>]"

definition tokens_brace_one :: "token list" where
  "tokens_brace_one =
     [\<lparr>tok_type = PUNCTUATION, tok_value = ''{'', tok_line = 1, tok_start = - 1, tok_end = 0\<rparr>,
      \<lparr>tok_type = WHITESPACE, tok_value = '' '', tok_line = 1, tok_start = 0, tok_end = 1\<rparr>,
      \<lparr>tok_type = NUMBER, tok_value = ''1'', tok_line = 1, tok_start = 2, tok_end = 3\<rparr>,
      \<lparr>tok_type = WHITESPACE, tok_value = '' '', tok_line = 1, tok_start = 2, tok_end = 3\<rparr>]"

definition tokens_one_semi :: "token list" where
  "tokens_one_semi =
     [\<lparr>tok_type = NUMBER, tok_value = ''1'', tok_line = 1, tok_start = 0, tok_end = 1\<rparr>,
      \<lparr>tok_type = PUNCTUATION, tok_value = '';'', tok_line = 1, tok_start = 0, tok_end = 1\<rparr>]"

text \<open>
  The order of results in the bound: with more of it, a result that was there stays
  the same.
\<close>

definition fuel_le :: "'a option \<Rightarrow> 'a option \<Rightarrow> bool" where
  "fuel_le a b = (a = None \<or> a = b)"

section \<open>Scanning loops that never leave\<close>

text \<open>
  Past the end of the string \<open>code[++current]\<close> is \<open>undefined\<close>, which is different
  from every character and whose string form \<open>undefined\<close> has letters.  So the comment
  loop never leaves when no newline follows, the string loop when the quote is not
  closed, and the identifier loop when the identifier runs to the end of the string.
\<close>

lemma comment_loop_diverges_aux:
  assumes "comment_loop code current v ch = Some y"
  shows "\<not> ((\<forall>i>current. i < length code \<longrightarrow> code ! i \<noteq> newline) \<and> ch \<noteq> Some newline)"
proof (rule comment_loop.raw_induct
        [where P = "\<lambda>code current v ch y.
           \<not> ((\<forall>i>current. i < length code \<longrightarrow> code ! i \<noteq> newline) \<and> ch \<noteq> Some newline)",
         OF _ assms], goal_cases)
  case (1 f code current v ch y)
  show ?case
  proof (cases "ch \<noteq> Some newline")
    case True
    with 1(2) have "f code (current + 1) (v @ to_str ch) (char_at code (current + 1)) = Some y"
      by simp
    from 1(1) [OF this] show ?thesis
      by (auto simp: char_at_def split: if_splits dest: Suc_lessD)
  next
    case False
    then show ?thesis by simp
  qed
qed

lemma string_loop_diverges_aux:
  assumes "string_loop code q current v ch = Some y"
  shows "\<not> ((\<forall>i>current. i < length code \<longrightarrow> code ! i \<noteq> q) \<and> ch \<noteq> Some q)"
proof (rule string_loop.raw_induct
        [where P = "\<lambda>code q current v ch y.
           \<not> ((\<forall>i>current. i < length code \<longrightarrow> code ! i \<noteq> q) \<and> ch \<noteq> Some q)",
         OF _ assms], goal_cases)
  case (1 f code q current v ch y)
  show ?case
  proof (cases "ch \<noteq> Some q")
    case True
    with 1(2) have "f code q (current + 1) (v @ to_str ch) (char_at code (current + 1)) = Some y"
      by simp
    from 1(1) [OF this] show ?thesis
      by (auto simp: char_at_def split: if_splits dest: Suc_lessD)
  next
    case False
    then show ?thesis by simp
  qed
qed

lemma test_alnum_undefined: "test_alnum None"
  by (simp add: test_alnum_def to_str_def is_alpha_def is_digit_def)

lemma ident_loop_diverges_aux:
  assumes "ident_loop code current v ch = Some y"
  shows "\<not> ((\<forall>i>current. i < length code \<longrightarrow> test_alnum (Some (code ! i))) \<and> test_alnum ch)"
proof (rule ident_loop.raw_induct
        [where P = "\<lambda>code current v ch y.
           \<not> ((\<forall>i>current. i < length code \<longrightarrow> test_alnum (Some (code ! i))) \<and> test_alnum ch)",
         OF _ assms], goal_cases)
  case (1 f code current v ch y)
  show ?case
  proof (cases "test_alnum ch")
    case True
    with 1(2) have "f code (current + 1) (v @ to_str ch) (char_at code (current + 1)) = Some y"
      by simp
    from 1(1) [OF this] show ?thesis
      by (auto simp: char_at_def test_alnum_undefined split: if_splits dest: Suc_lessD)
  next
    case False
    then show ?thesis by simp
  qed
qed

lemma comment_loop_diverges:
  "\<forall>i>current. i < length code \<longrightarrow> code ! i \<noteq> newline \<Longrightarrow> ch \<noteq> Some newline \<Longrightarrow>
   comment_loop code current v ch = None"
  using comment_loop_diverges_aux [of code current v ch] by (cases "comment_loop code current v ch") auto

lemma string_loop_diverges:
  "\<forall>i>current. i < length code \<longrightarrow> code ! i \<noteq> q \<Longrightarrow> ch \<noteq> Some q \<Longrightarrow>
   string_loop code q current v ch = None"
  using string_loop_diverges_aux [of code q current v ch] by (cases "string_loop code q current v ch") auto

lemma ident_loop_diverges:
  "\<forall>i>current. i < length code \<longrightarrow> test_alnum (Some (code ! i)) \<Longrightarrow> test_alnum ch \<Longrightarrow>
   ident_loop code current v ch = None"
  using ident_loop_diverges_aux [of code current v ch] by (cases "ident_loop code current v ch") auto

section \<open>Tokens of the first lexer are well formed\<close>

lemma well_formed_createToken: "well_formed (createToken line current ty v)"
  by (simp add: well_formed_def createToken_def)

lemma tokenize_loop_well_formed:
  assumes "tokenize_loop code current line column tokens = Some r"
  shows "list_all well_formed tokens \<longrightarrow> (\<forall>toks. r = Inr toks \<longrightarrow> list_all well_formed toks)"
proof (rule tokenize_loop.raw_induct
        [where P = "\<lambda>code current line column tokens r.
           list_all well_formed tokens \<longrightarrow> (\<forall>toks. r = Inr toks \<longrightarrow> list_all well_formed toks)",
         OF _ assms], goal_cases)
  case (1 f code current line column tokens r)
  have nl: "well_formed \<lparr>tok_type = NEWLINE, tok_value = [c], tok_line = l,
                        tok_start = int k, tok_end = int k + 1\<rparr>" for c l k
    by (simp add: well_formed_def)
  show ?case
    using 1(2)
    by (auto simp: Let_def well_formed_createToken nl
             split: if_splits option.splits prod.splits
             dest!: 1(1))
qed

lemma tokenize_loop_unexpected_aux: "unmatched c \<Longrightarrow> c \<noteq> CHR ''/''"
  by (auto simp: unmatched_def list_includes_def OPERATORS_def)

lemma tokenize_loop_unexpected:
  assumes "current < length code" and "unmatched (code ! current)"
  shows "tokenize_loop code current line column tokens
         = Some (Inl (Thrown_TypeError (''Unexpected character: '' @ [code ! current])))"
  using assms tokenize_loop_unexpected_aux [OF assms(2)]
  by (subst tokenize_loop.simps) (simp add: unmatched_def Let_def)

section \<open>The second lexer: total, lossless, well formed\<close>

lemma numeric_loop_value:
  "numeric_loop source current column numValue = (current', column', numValue') \<Longrightarrow>
   current \<le> length source \<Longrightarrow>
   current \<le> current' \<and> current' \<le> length source \<and>
   numValue' = numValue @ take (current' - current) (drop current source)"
proof (induction source current column numValue rule: numeric_loop.induct)
  case (1 source current column numValue)
  show ?case
  proof (cases "current < length source \<and> is_digit (source ! current)")
    case True
    with "1.prems" have rec: "numeric_loop source (current + 1) (column + 1) (numValue @ [source ! current])
        = (current', column', numValue')"
      by (subst (asm) numeric_loop.simps) simp
    from "1.IH" [OF True rec] True
    have ih: "current + 1 \<le> current'" "current' \<le> length source"
      "numValue' = (numValue @ [source ! current]) @ take (current' - (current + 1)) (drop (current + 1) source)"
      by auto
    have "take (current' - current) (drop current source)
          = source ! current # take (current' - (current + 1)) (drop (current + 1) source)"
    proof -
      from ih(1) have "current' - current = Suc (current' - (current + 1))" by arith
      with True show ?thesis by (simp add: Cons_nth_drop_Suc [symmetric])
    qed
    with ih show ?thesis by simp
  next
    case False
    with "1.prems" show ?thesis
      by (subst (asm) numeric_loop.simps) auto
  qed
qed

lemma identifier_loop_value:
  "identifier_loop source current column idValue = (current', column', idValue') \<Longrightarrow>
   current \<le> length source \<Longrightarrow>
   current \<le> current' \<and> current' \<le> length source \<and>
   idValue' = idValue @ take (current' - current) (drop current source)"
proof (induction source current column idValue rule: identifier_loop.induct)
  case (1 source current column idValue)
  show ?case
  proof (cases "current < length source \<and> is_ident_part (source ! current)")
    case True
    with "1.prems" have rec: "identifier_loop source (current + 1) (column + 1) (idValue @ [source ! current])
        = (current', column', idValue')"
      by (subst (asm) identifier_loop.simps) simp
    from "1.IH" [OF True rec] True
    have ih: "current + 1 \<le> current'" "current' \<le> length source"
      "idValue' = (idValue @ [source ! current]) @ take (current' - (current + 1)) (drop (current + 1) source)"
      by auto
    have "take (current' - current) (drop current source)
          = source ! current # take (current' - (current + 1)) (drop (current + 1) source)"
    proof -
      from ih(1) have "current' - current = Suc (current' - (current + 1))" by arith
      with True show ?thesis by (simp add: Cons_nth_drop_Suc [symmetric])
    qed
    with ih show ?thesis by simp
  next
    case False
    with "1.prems" show ?thesis
      by (subst (asm) identifier_loop.simps) auto
  qed
qed

lemma drop_step: "current < length source \<Longrightarrow> drop current source = source ! current # drop (current + 1) source"
  by (simp add: Cons_nth_drop_Suc)

lemma take_drop_run:
  "current < current' \<Longrightarrow> current' \<le> length source \<Longrightarrow>
   (source ! current # take (current' - (current + 1)) (drop (current + 1) source)) @ drop current' source
   = drop current source"
proof -
  assume a: "current < current'" "current' \<le> length source"
  have "take (current' - (current + 1)) (drop (current + 1) source) @ drop current' source
        = drop (current + 1) source"
    using a by (metis Suc_eq_plus1 Suc_leI append_take_drop_id drop_drop le_add_diff_inverse2)
  then show ?thesis using a by (simp add: drop_step)
qed

lemma tokenize_b_loop_lossless:
  "current \<le> length source \<Longrightarrow>
   concat (map b_value (tokenize_b_loop source current line column insideString insideRegex tokens))
   = concat (map b_value tokens) @ drop current source"
proof (induction source current line column insideString insideRegex tokens rule: tokenize_b_loop.induct)
  case (1 source current line column insideString insideRegex tokens)
  show ?case
  proof (cases "current < length source")
    case False
    with "1.prems" show ?thesis by (subst tokenize_b_loop.simps) simp
  next
    case lt: True
    let ?char = "source ! current"
    note IH = "1.IH" [OF lt refl refl refl refl]
    consider (nl) "?char = newline \<and> \<not> insideString \<and> \<not> insideRegex"
      | (ws) "\<not> (?char = newline \<and> \<not> insideString \<and> \<not> insideRegex)" "is_space ?char"
      | (re) "\<not> (?char = newline \<and> \<not> insideString \<and> \<not> insideRegex)" "\<not> is_space ?char"
             "?char = CHR ''/'' \<and> \<not> insideString"
      | (num) "\<not> (?char = newline \<and> \<not> insideString \<and> \<not> insideRegex)" "\<not> is_space ?char"
             "\<not> (?char = CHR ''/'' \<and> \<not> insideString)" "is_digit ?char"
      | (ident) "\<not> (?char = newline \<and> \<not> insideString \<and> \<not> insideRegex)" "\<not> is_space ?char"
             "\<not> (?char = CHR ''/'' \<and> \<not> insideString)" "\<not> is_digit ?char" "is_ident_start ?char"
      | (punct) "\<not> (?char = newline \<and> \<not> insideString \<and> \<not> insideRegex)" "\<not> is_space ?char"
             "\<not> (?char = CHR ''/'' \<and> \<not> insideString)" "\<not> is_digit ?char" "\<not> is_ident_start ?char"
      by blast
    then show ?thesis
    proof cases
      case nl
      with lt IH(1) show ?thesis
        by (subst tokenize_b_loop.simps) (auto simp: addToken_def drop_step Let_def)
    next
      case ws
      with lt IH(2) show ?thesis
        by (subst tokenize_b_loop.simps) (auto simp: addToken_def drop_step Let_def)
    next
      case re
      with lt IH(3) show ?thesis
        by (subst tokenize_b_loop.simps) (auto simp: addToken_def drop_step Let_def)
    next
      case num
      obtain c' col' v' where nl: "numeric_loop source (current + 1) (column + 1) [?char] = (c', col', v')"
        by (cases "numeric_loop source (current + 1) (column + 1) [?char]") auto
      from numeric_loop_value [OF nl] lt
      have v: "current + 1 \<le> c'" "c' \<le> length source"
        "v' = ?char # take (c' - (current + 1)) (drop (current + 1) source)" by auto
      have "concat (map b_value (tokenize_b_loop source c' line col' insideString insideRegex
               (addToken tokens ''Numeric'' v' current c' (createLoc line column line col'))))
            = concat (map b_value (addToken tokens ''Numeric'' v' current c' (createLoc line column line col')))
              @ drop c' source"
        using IH(4) [OF num(1) num(2) num(3) num(4) nl [symmetric] refl] v by simp
      then show ?thesis
        using lt num nl v take_drop_run [of current c' source]
        by (subst tokenize_b_loop.simps) (auto simp: addToken_def Let_def)
    next
      case ident
      obtain c' col' v' where nl: "identifier_loop source (current + 1) (column + 1) [?char] = (c', col', v')"
        by (cases "identifier_loop source (current + 1) (column + 1) [?char]") auto
      from identifier_loop_value [OF nl] lt
      have v: "current + 1 \<le> c'" "c' \<le> length source"
        "v' = ?char # take (c' - (current + 1)) (drop (current + 1) source)" by auto
      have "concat (map b_value (tokenize_b_loop source c' line col' insideString insideRegex
               (addToken tokens (if List.member keywords_b v' then ''Keyword'' else ''Identifier'') v' current c' (createLoc line column line col'))))
            = concat (map b_value (addToken tokens (if List.member keywords_b v' then ''Keyword'' else ''Identifier'') v' current c' (createLoc line column line col')))
              @ drop c' source"
        using IH(5) [OF ident(1) ident(2) ident(3) ident(4) ident(5) nl [symmetric] refl] v by simp
      then show ?thesis
        using lt ident nl v take_drop_run [of current c' source]
        by (subst tokenize_b_loop.simps) (auto simp: addToken_def Let_def)
    next
      case punct
      with lt IH(6) show ?thesis
        by (subst tokenize_b_loop.simps) (auto simp: addToken_def drop_step Let_def)
    qed
  qed
qed

lemma run_length:
  "current + 1 \<le> c' \<Longrightarrow> c' \<le> length source \<Longrightarrow>
   int (length (c # take (c' - (current + 1)) (drop (current + 1) source))) = int c' - int current"
  by auto

lemma well_formed_b_append:
  "list_all well_formed_b tokens \<Longrightarrow> int e - int s = int (length v) \<Longrightarrow>
   list_all well_formed_b (addToken tokens ty v s e l)"
  by (simp add: addToken_def well_formed_b_def)

lemma tokenize_b_loop_well_formed:
  "current \<le> length source \<Longrightarrow> list_all well_formed_b tokens \<Longrightarrow>
   list_all well_formed_b (tokenize_b_loop source current line column insideString insideRegex tokens)"
proof (induction source current line column insideString insideRegex tokens rule: tokenize_b_loop.induct)
  case (1 source current line column insideString insideRegex tokens)
  show ?case
  proof (cases "current < length source")
    case False
    with "1.prems" show ?thesis by (subst tokenize_b_loop.simps) simp
  next
    case lt: True
    let ?char = "source ! current"
    note IH = "1.IH" [OF lt refl refl refl refl]
    have one: "list_all well_formed_b (addToken tokens ty [?char] current (current + 1) l)" for ty l
      using "1.prems"(2) by (intro well_formed_b_append) auto
    consider (nl) "?char = newline \<and> \<not> insideString \<and> \<not> insideRegex"
      | (ws) "\<not> (?char = newline \<and> \<not> insideString \<and> \<not> insideRegex)" "is_space ?char"
      | (re) "\<not> (?char = newline \<and> \<not> insideString \<and> \<not> insideRegex)" "\<not> is_space ?char"
             "?char = CHR ''/'' \<and> \<not> insideString"
      | (num) "\<not> (?char = newline \<and> \<not> insideString \<and> \<not> insideRegex)" "\<not> is_space ?char"
             "\<not> (?char = CHR ''/'' \<and> \<not> insideString)" "is_digit ?char"
      | (ident) "\<not> (?char = newline \<and> \<not> insideString \<and> \<not> insideRegex)" "\<not> is_space ?char"
             "\<not> (?char = CHR ''/'' \<and> \<not> insideString)" "\<not> is_digit ?char" "is_ident_start ?char"
      | (punct) "\<not> (?char = newline \<and> \<not> insideString \<and> \<not> insideRegex)" "\<not> is_space ?char"
             "\<not> (?char = CHR ''/'' \<and> \<not> insideString)" "\<not> is_digit ?char" "\<not> is_ident_start ?char"
      by blast
    then show ?thesis
    proof cases
      case nl
      with lt IH(1) [OF nl _ one] show ?thesis
        by (subst tokenize_b_loop.simps) (auto simp: Let_def)
    next
      case ws
      with lt IH(2) [OF ws _ one] show ?thesis
        by (subst tokenize_b_loop.simps) (auto simp: Let_def)
    next
      case re
      with lt IH(3) [OF re _ one] show ?thesis
        by (subst tokenize_b_loop.simps) (auto simp: Let_def)
    next
      case num
      obtain c' col' v' where nl: "numeric_loop source (current + 1) (column + 1) [?char] = (c', col', v')"
        by (cases "numeric_loop source (current + 1) (column + 1) [?char]") auto
      from numeric_loop_value [OF nl] lt
      have v: "current + 1 \<le> c'" "c' \<le> length source"
        "v' = ?char # take (c' - (current + 1)) (drop (current + 1) source)" by auto
      have wf: "list_all well_formed_b (addToken tokens ''Numeric'' v' current c' (createLoc line column line col'))"
        using "1.prems"(2) v run_length [OF v(1,2)] by (intro well_formed_b_append) auto
      from IH(4) [OF num(1) num(2) num(3) num(4) nl [symmetric] refl v(2) wf]
      show ?thesis
        using lt num nl by (subst tokenize_b_loop.simps) (auto simp: Let_def)
    next
      case ident
      obtain c' col' v' where nl: "identifier_loop source (current + 1) (column + 1) [?char] = (c', col', v')"
        by (cases "identifier_loop source (current + 1) (column + 1) [?char]") auto
      from identifier_loop_value [OF nl] lt
      have v: "current + 1 \<le> c'" "c' \<le> length source"
        "v' = ?char # take (c' - (current + 1)) (drop (current + 1) source)" by auto
      have wf: "list_all well_formed_b (addToken tokens
          (if List.member keywords_b v' then ''Keyword'' else ''Identifier'') v' current c' (createLoc line column line col'))"
        using "1.prems"(2) v run_length [OF v(1,2)] by (intro well_formed_b_append) auto
      from IH(5) [OF ident(1) ident(2) ident(3) ident(4) ident(5) nl [symmetric] refl v(2) wf]
      show ?thesis
        using lt ident nl by (subst tokenize_b_loop.simps) (auto simp: Let_def)
    next
      case punct
      with lt IH(6) [OF punct _ one] show ?thesis
        by (subst tokenize_b_loop.simps) (auto simp: Let_def)
    qed
  qed
qed

lemma tokenize_b_well_formed: "list_all well_formed_b (tokenize_b source)"
  unfolding tokenize_b_def by (rule tokenize_b_loop_well_formed) simp_all

lemma tokenize_b_lossless: "concat (map b_value (tokenize_b source)) = source"
  unfolding tokenize_b_def by (simp add: tokenize_b_loop_lossless)

lemma other_character_not_newline: "other_character c \<Longrightarrow> c \<noteq> newline"
  by (auto simp: other_character_def is_space_def newline_def)

lemma tokenize_b_loop_other_step:
  assumes "current < length source" and "other_character (source ! current)"
  shows "tokenize_b_loop source current line column insideString insideRegex tokens
         = tokenize_b_loop source (current + 1) line (column + 1) insideString insideRegex
             (addToken tokens ''Punctuation'' [source ! current] current (current + 1)
                (createLoc line column line (column + 1)))"
  using assms other_character_not_newline [OF assms(2)]
  by (subst tokenize_b_loop.simps) (simp add: other_character_def Let_def)

lemma tokenize_b_loop_keeps:
  "set tokens \<subseteq> set (tokenize_b_loop source current line column insideString insideRegex tokens)"
proof (induction source current line column insideString insideRegex tokens rule: tokenize_b_loop.induct)
  case (1 source current line column insideString insideRegex tokens)
  show ?case
  proof (cases "current < length source")
    case False
    then show ?thesis by (subst tokenize_b_loop.simps) simp
  next
    case lt: True
    note IH = "1.IH" [OF lt refl refl refl refl]
    obtain nc ncol nv where n: "numeric_loop source (current + 1) (column + 1) [source ! current] = (nc, ncol, nv)"
      by (cases "numeric_loop source (current + 1) (column + 1) [source ! current]") auto
    obtain ic icol iv where i: "identifier_loop source (current + 1) (column + 1) [source ! current] = (ic, icol, iv)"
      by (cases "identifier_loop source (current + 1) (column + 1) [source ! current]") auto
    let ?char = "source ! current"
    consider (nl) "?char = newline \<and> \<not> insideString \<and> \<not> insideRegex"
      | (ws) "\<not> (?char = newline \<and> \<not> insideString \<and> \<not> insideRegex)" "is_space ?char"
      | (re) "\<not> (?char = newline \<and> \<not> insideString \<and> \<not> insideRegex)" "\<not> is_space ?char"
             "?char = CHR ''/'' \<and> \<not> insideString"
      | (num) "\<not> (?char = newline \<and> \<not> insideString \<and> \<not> insideRegex)" "\<not> is_space ?char"
             "\<not> (?char = CHR ''/'' \<and> \<not> insideString)" "is_digit ?char"
      | (ident) "\<not> (?char = newline \<and> \<not> insideString \<and> \<not> insideRegex)" "\<not> is_space ?char"
             "\<not> (?char = CHR ''/'' \<and> \<not> insideString)" "\<not> is_digit ?char" "is_ident_start ?char"
      | (punct) "\<not> (?char = newline \<and> \<not> insideString \<and> \<not> insideRegex)" "\<not> is_space ?char"
             "\<not> (?char = CHR ''/'' \<and> \<not> insideString)" "\<not> is_digit ?char" "\<not> is_ident_start ?char"
      by blast
    then show ?thesis
    proof cases
      case nl
      with lt IH(1) [OF nl] show ?thesis
        by (subst tokenize_b_loop.simps) (auto simp: Let_def addToken_def)
    next
      case ws
      with lt IH(2) [OF ws] show ?thesis
        by (subst tokenize_b_loop.simps) (auto simp: Let_def addToken_def)
    next
      case re
      with lt IH(3) [OF re] show ?thesis
        by (subst tokenize_b_loop.simps) (auto simp: Let_def addToken_def)
    next
      case num
      with lt n IH(4) [OF num n [symmetric] refl] show ?thesis
        by (subst tokenize_b_loop.simps) (auto simp: Let_def addToken_def)
    next
      case ident
      with lt i IH(5) [OF ident i [symmetric] refl] show ?thesis
        by (subst tokenize_b_loop.simps) (auto simp: Let_def addToken_def)
    next
      case punct
      with lt IH(6) [OF punct] show ?thesis
        by (subst tokenize_b_loop.simps) (auto simp: Let_def addToken_def)
    qed
  qed
qed

lemma numeric_loop_stops:
  "numeric_loop source current column numValue = (current', column', numValue') \<Longrightarrow>
   current \<le> i \<Longrightarrow> i < length source \<Longrightarrow> \<not> is_digit (source ! i) \<Longrightarrow> current' \<le> i"
proof (induction source current column numValue rule: numeric_loop.induct)
  case (1 source current column numValue)
  show ?case
  proof (cases "current < length source \<and> is_digit (source ! current)")
    case True
    with "1.prems" have rec: "numeric_loop source (current + 1) (column + 1) (numValue @ [source ! current])
        = (current', column', numValue')"
      by (subst (asm) numeric_loop.simps) simp
    from True "1.prems" have "current \<noteq> i" by auto
    with "1.prems" have "current + 1 \<le> i" by simp
    from "1.IH" [OF True rec this "1.prems"(3,4)] show ?thesis .
  next
    case False
    with "1.prems" show ?thesis
      by (subst (asm) numeric_loop.simps) auto
  qed
qed

lemma identifier_loop_stops:
  "identifier_loop source current column idValue = (current', column', idValue') \<Longrightarrow>
   current \<le> i \<Longrightarrow> i < length source \<Longrightarrow> \<not> is_ident_part (source ! i) \<Longrightarrow> current' \<le> i"
proof (induction source current column idValue rule: identifier_loop.induct)
  case (1 source current column idValue)
  show ?case
  proof (cases "current < length source \<and> is_ident_part (source ! current)")
    case True
    with "1.prems" have rec: "identifier_loop source (current + 1) (column + 1) (idValue @ [source ! current])
        = (current', column', idValue')"
      by (subst (asm) identifier_loop.simps) simp
    from True "1.prems" have "current \<noteq> i" by auto
    with "1.prems" have "current + 1 \<le> i" by simp
    from "1.IH" [OF True rec this "1.prems"(3,4)] show ?thesis .
  next
    case False
    with "1.prems" show ?thesis
      by (subst (asm) identifier_loop.simps) auto
  qed
qed

lemma tokenize_b_loop_other_token:
  "current \<le> i \<Longrightarrow> i < length source \<Longrightarrow> other_character (source ! i) \<Longrightarrow>
   \<exists>l. \<lparr>b_type = ''Punctuation'', b_value = [source ! i], b_range = (i, i + 1), b_loc = l\<rparr>
       \<in> set (tokenize_b_loop source current line column insideString insideRegex tokens)"
proof (induction source current line column insideString insideRegex tokens rule: tokenize_b_loop.induct)
  case (1 source current line column insideString insideRegex tokens)
  from "1.prems" have lt: "current < length source" by simp
  note IH = "1.IH" [OF lt refl refl refl refl]
  have nd: "\<not> is_digit (source ! i)" and np: "\<not> is_ident_part (source ! i)"
    using "1.prems"(3) by (auto simp: other_character_def is_ident_part_def is_ident_start_def)
  show ?case
  proof (cases "current = i")
    case True
    let ?t = "\<lparr>b_type = ''Punctuation'', b_value = [source ! i], b_range = (i, i + 1),
               b_loc = createLoc line column line (column + 1)\<rparr>"
    have "?t \<in> set (addToken tokens ''Punctuation'' [source ! i] i (i + 1)
                       (createLoc line column line (column + 1)))"
      by (simp add: addToken_def)
    moreover have "set (addToken tokens ''Punctuation'' [source ! i] i (i + 1)
                       (createLoc line column line (column + 1)))
          \<subseteq> set (tokenize_b_loop source (i + 1) line (column + 1) insideString insideRegex
                  (addToken tokens ''Punctuation'' [source ! i] i (i + 1)
                     (createLoc line column line (column + 1))))"
      by (rule tokenize_b_loop_keeps)
    moreover have "tokenize_b_loop source current line column insideString insideRegex tokens
          = tokenize_b_loop source (i + 1) line (column + 1) insideString insideRegex
              (addToken tokens ''Punctuation'' [source ! i] i (i + 1)
                 (createLoc line column line (column + 1)))"
      using tokenize_b_loop_other_step [of i source line column insideString insideRegex tokens]
        "1.prems" True by simp
    ultimately have "?t \<in> set (tokenize_b_loop source current line column insideString insideRegex tokens)"
      by (simp only: subsetD)
    then show ?thesis by blast
  next
    case False
    with "1.prems" have s: "current + 1 \<le> i" by simp
    obtain nc ncol nv where n: "numeric_loop source (current + 1) (column + 1) [source ! current] = (nc, ncol, nv)"
      by (cases "numeric_loop source (current + 1) (column + 1) [source ! current]") auto
    obtain ic icol iv where id: "identifier_loop source (current + 1) (column + 1) [source ! current] = (ic, icol, iv)"
      by (cases "identifier_loop source (current + 1) (column + 1) [source ! current]") auto
    have ncle: "nc \<le> i" using numeric_loop_stops [OF n s "1.prems"(2) nd] .
    have icle: "ic \<le> i" using identifier_loop_stops [OF id s "1.prems"(2) np] .
    let ?char = "source ! current"
    consider (nl) "?char = newline \<and> \<not> insideString \<and> \<not> insideRegex"
      | (ws) "\<not> (?char = newline \<and> \<not> insideString \<and> \<not> insideRegex)" "is_space ?char"
      | (re) "\<not> (?char = newline \<and> \<not> insideString \<and> \<not> insideRegex)" "\<not> is_space ?char"
             "?char = CHR ''/'' \<and> \<not> insideString"
      | (num) "\<not> (?char = newline \<and> \<not> insideString \<and> \<not> insideRegex)" "\<not> is_space ?char"
             "\<not> (?char = CHR ''/'' \<and> \<not> insideString)" "is_digit ?char"
      | (ident) "\<not> (?char = newline \<and> \<not> insideString \<and> \<not> insideRegex)" "\<not> is_space ?char"
             "\<not> (?char = CHR ''/'' \<and> \<not> insideString)" "\<not> is_digit ?char" "is_ident_start ?char"
      | (punct) "\<not> (?char = newline \<and> \<not> insideString \<and> \<not> insideRegex)" "\<not> is_space ?char"
             "\<not> (?char = CHR ''/'' \<and> \<not> insideString)" "\<not> is_digit ?char" "\<not> is_ident_start ?char"
      by blast
    then show ?thesis
    proof cases
      case nl
      with lt IH(1) [OF nl s "1.prems"(2,3)] show ?thesis
        by (subst tokenize_b_loop.simps) (auto simp: Let_def)
    next
      case ws
      with lt IH(2) [OF ws s "1.prems"(2,3)] show ?thesis
        by (subst tokenize_b_loop.simps) (auto simp: Let_def)
    next
      case re
      with lt IH(3) [OF re s "1.prems"(2,3)] show ?thesis
        by (subst tokenize_b_loop.simps) (auto simp: Let_def)
    next
      case num
      with lt n IH(4) [OF num n [symmetric] refl ncle "1.prems"(2,3)] show ?thesis
        by (subst tokenize_b_loop.simps) (auto simp: Let_def)
    next
      case ident
      with lt id IH(5) [OF ident id [symmetric] refl icle "1.prems"(2,3)] show ?thesis
        by (subst tokenize_b_loop.simps) (auto simp: Let_def)
    next
      case punct
      with lt IH(6) [OF punct s "1.prems"(2,3)] show ?thesis
        by (subst tokenize_b_loop.simps) (auto simp: Let_def)
    qed
  qed
qed

lemma tokenize_b_other_token:
  "i < length source \<Longrightarrow> other_character (source ! i) \<Longrightarrow>
   \<exists>l. \<lparr>b_type = ''Punctuation'', b_value = [source ! i], b_range = (i, i + 1), b_loc = l\<rparr>
       \<in> set (tokenize_b source)"
  unfolding tokenize_b_def by (rule tokenize_b_loop_other_token) simp_all

section \<open>The bound of \<open>walk\<close> and \<open>parse\<close>\<close>

text \<open>
  A larger bound never changes a result: \<open>parse n tokens = Some r\<close> is the result
  \<open>r\<close> of the call, and \<open>parse n tokens = None\<close> for every \<open>n\<close> is a call that never
  returns.
\<close>

lemma fuel_le_refl: "fuel_le a a"
  by (simp add: fuel_le_def)

lemma fuel_le_None: "fuel_le None a"
  by (simp add: fuel_le_def)

lemma fuel_le_bind:
  "fuel_le m m' \<Longrightarrow> (\<And>x. fuel_le (f x) (f' x)) \<Longrightarrow> fuel_le (bind_result m f) (bind_result m' f')"
  by (auto simp: fuel_le_def bind_result_def split: option.splits sum.splits)

lemma fuel_le_if:
  "(c \<Longrightarrow> fuel_le a a') \<Longrightarrow> (\<not> c \<Longrightarrow> fuel_le b b') \<Longrightarrow>
   fuel_le (if c then a else b) (if c then a' else b')"
  by simp

lemma fuel_le_case_prod:
  "(\<And>a b. fuel_le (f a b) (f' a b)) \<Longrightarrow> fuel_le (case p of (a, b) \<Rightarrow> f a b) (case p of (a, b) \<Rightarrow> f' a b)"
  by (cases p) simp

lemma fuel_le_case_option:
  "fuel_le a a' \<Longrightarrow> (\<And>x. fuel_le (f x) (f' x)) \<Longrightarrow>
   fuel_le (case v of None \<Rightarrow> a | Some x \<Rightarrow> f x) (case v of None \<Rightarrow> a' | Some x \<Rightarrow> f' x)"
  by (cases v) simp_all

lemma fuel_le_Let:
  "(\<And>x. fuel_le (f x) (f' x)) \<Longrightarrow> fuel_le (Let v f) (Let v f')"
  by (simp add: Let_def)

lemmas fuel_le_intros = fuel_le_bind fuel_le_if fuel_le_case_prod fuel_le_case_option fuel_le_Let

lemma fuel_step:
  "(\<forall>tokens current. fuel_le (walk n tokens current) (walk (Suc n) tokens current)) \<and>
   (\<forall>tokens current params. fuel_le (params_loop n tokens current params) (params_loop (Suc n) tokens current params)) \<and>
   (\<forall>tokens current token body. fuel_le (body_loop n tokens current token body) (body_loop (Suc n) tokens current token body))"
proof (induction n)
  case 0
  show ?case by (simp add: fuel_le_None)
next
  case (Suc n)
  then have w: "\<And>tokens current. fuel_le (walk n tokens current) (walk (Suc n) tokens current)"
    and p: "\<And>tokens current params. fuel_le (params_loop n tokens current params) (params_loop (Suc n) tokens current params)"
    and b: "\<And>tokens current token body. fuel_le (body_loop n tokens current token body) (body_loop (Suc n) tokens current token body)"
    by blast+
  have "fuel_le (walk (Suc n) tokens current) (walk (Suc (Suc n)) tokens current)" for tokens current
    apply (subst walk.simps(2) [of n tokens current])
    apply (subst walk.simps(2) [of "Suc n" tokens current])
    apply (intro fuel_le_intros w p b fuel_le_refl)
    done
  moreover have "fuel_le (params_loop (Suc n) tokens current params) (params_loop (Suc (Suc n)) tokens current params)"
    for tokens current params
    apply (subst params_loop.simps(2) [of n tokens current])
    apply (subst params_loop.simps(2) [of "Suc n" tokens current])
    apply (intro fuel_le_intros w p b fuel_le_refl)
    done
  moreover have "fuel_le (body_loop (Suc n) tokens current token body) (body_loop (Suc (Suc n)) tokens current token body)"
    for tokens current token body
    apply (subst body_loop.simps(2) [of n tokens current])
    apply (subst body_loop.simps(2) [of "Suc n" tokens current])
    apply (intro fuel_le_intros w p b fuel_le_refl)
    done
  ultimately show ?case by blast
qed

lemma walk_fuel_step: "fuel_le (walk n tokens current) (walk (Suc n) tokens current)"
  using fuel_step by blast

lemma parse_loop_fuel_step:
  "fuel_le (parse_loop n tokens current body) (parse_loop (Suc n) tokens current body)"
proof (induction n arbitrary: current body)
  case 0
  show ?case by (simp add: fuel_le_None)
next
  case (Suc n)
  show ?case
    apply (subst parse_loop.simps(2) [of n tokens current])
    apply (subst parse_loop.simps(2) [of "Suc n" tokens current])
    apply (intro fuel_le_intros walk_fuel_step Suc.IH fuel_le_refl)
    done
qed

lemma parse_fuel_step: "fuel_le (parse n tokens) (parse (Suc n) tokens)"
  unfolding parse_def
  by (intro fuel_le_intros parse_loop_fuel_step fuel_le_refl)

lemma parse_fuel_mono: "parse n tokens = Some r \<Longrightarrow> n \<le> m \<Longrightarrow> parse m tokens = Some r"
proof (induction m)
  case 0
  then show ?case by simp
next
  case (Suc m)
  show ?case
  proof (cases "n = Suc m")
    case True
    with Suc.prems show ?thesis by simp
  next
    case False
    with Suc have "parse m tokens = Some r" by simp
    with parse_fuel_step [of m tokens] show ?thesis by (simp add: fuel_le_def)
  qed
qed

lemma parse_source_fuel_mono:
  "parse_source n code = Some r \<Longrightarrow> n \<le> m \<Longrightarrow> parse_source m code = Some r"
  unfolding parse_source_def bind_result_def
  by (auto split: option.splits sum.splits dest: parse_fuel_mono)

lemma parse_loop_stuck:
  assumes "current < length tokens"
    and "\<And>k. walk k tokens current = None \<or> walk k tokens current = Some (Inr (Null, current))"
  shows "parse_loop n tokens current body = None"
proof (induction n)
  case 0
  show ?case by simp
next
  case (Suc n)
  from assms(2) [of n] show ?case
    using assms(1) Suc.IH by (auto simp: bind_result_def)
qed

lemma walk_falls_through:
  assumes "current < length tokens"
    and "\<not> List.member skipTokens (tok_type (tokens ! current))"
    and "tok_type (tokens ! current) = KEYWORD \<and> tok_value (tokens ! current) \<notin> {''return'', ''const'', ''function''}
         \<or> tok_type (tokens ! current) = PUNCTUATION \<and> tok_value (tokens ! current) \<noteq> ''{''
            \<and> \<not> List.member skipPunctuation (tok_value (tokens ! current))"
  shows "walk k tokens current = None \<or> walk k tokens current = Some (Inr (Null, current))"
proof (cases k)
  case 0
  then show ?thesis by simp
next
  case (Suc n)
  have "skip_loop tokens current (tokens ! current) = (Some (tokens ! current), current)"
    using assms(2) by (subst skip_loop.simps) simp
  with assms(1,3) Suc show ?thesis by auto
qed

lemma parse_loop_no_null:
  "parse_loop n tokens current body = Some (Inr body') \<Longrightarrow> Null \<notin> set body \<Longrightarrow> Null \<notin> set body'"
proof (induction n arbitrary: current body)
  case 0
  then show ?case by simp
next
  case (Suc n)
  show ?case
  proof (cases "current < length tokens")
    case False
    with Suc.prems show ?thesis by simp
  next
    case True
    with Suc.prems(1) obtain nd c where
      w: "walk n tokens current = Some (Inr (nd, c))"
      and r: "parse_loop n tokens c (if nd \<noteq> Null then body @ [nd] else body) = Some (Inr body')"
      by (auto simp: bind_result_def split: option.splits sum.splits)
    from Suc.IH [OF r] Suc.prems(2) show ?thesis by (auto split: if_splits)
  qed
qed

lemma parse_no_null: "parse n tokens = Some (Inr (Program body p)) \<Longrightarrow> Null \<notin> set body"
  unfolding parse_def
  by (auto simp: bind_result_def Let_def split: if_splits option.splits sum.splits dest: parse_loop_no_null)

section \<open>The end of the tokens\<close>

lemma skip_loop_to_end:
  "current < length tokens \<Longrightarrow> only_skip_from tokens current \<Longrightarrow>
   skip_loop tokens current (tokens ! current) = (None, length tokens)"
proof (induction "length tokens - current" arbitrary: current)
  case 0
  then show ?case by simp
next
  case (Suc k)
  have hd: "is_skip (tokens ! current)" and tl: "only_skip_from tokens (current + 1)"
    using Suc.prems by (simp_all add: only_skip_from_def Cons_nth_drop_Suc [symmetric])
  show ?case
  proof (cases "current + 1 < length tokens")
    case True
    have "k = length tokens - (current + 1)" using Suc.hyps(2) by simp
    from Suc.hyps(1) [OF this True tl] hd True show ?thesis
      by (subst skip_loop.simps) (simp add: is_skip_def)
  next
    case False
    with Suc.prems(1) have "current + 1 = length tokens" by simp
    with hd show ?thesis
      by (subst skip_loop.simps) (simp add: is_skip_def)
  qed
qed

lemma skip_loop_finds:
  "skips_to tokens current i \<Longrightarrow> skip_loop tokens current (tokens ! current) = (Some (tokens ! i), i)"
proof (induction "i - current" arbitrary: current)
  case 0
  then have "current = i" and "\<not> is_skip (tokens ! i)" by (simp_all add: skips_to_def)
  then show ?case by (subst skip_loop.simps) (simp add: is_skip_def)
next
  case (Suc k)
  then have lt: "current < i" "i < length tokens" by (simp_all add: skips_to_def)
  have d: "drop current tokens = tokens ! current # drop (current + 1) tokens"
    using lt by (simp add: Cons_nth_drop_Suc)
  have t: "i - current = Suc (i - (current + 1))" using lt by simp
  have hd: "is_skip (tokens ! current)" and tl: "skips_to tokens (current + 1) i"
    using Suc.prems lt unfolding skips_to_def d t by simp_all
  have "k = i - (current + 1)" using Suc.hyps(2) by simp
  from Suc.hyps(1) [OF this tl] hd lt show ?case
    by (subst skip_loop.simps) (simp add: is_skip_def)
qed

lemma walk_only_skip:
  "only_skip_from tokens current \<Longrightarrow>
   walk (Suc n) tokens current = Some (Inr (Null, max current (length tokens)))"
  using skip_loop_to_end [of current tokens] by (cases "current < length tokens") (simp_all add: max_def)

lemma walk_operator_at_end:
  assumes "skips_to tokens current i" and "tok_type (tokens ! i) = OPERATOR"
    and "walk (Suc n) tokens (i + 1) = Some (Inr (left, c))" and "only_skip_from tokens c"
  shows "walk (Suc (Suc n)) tokens current = Some (Inr (Null, max c (length tokens)))"
proof -
  have lt: "current < length tokens" using assms(1) by (simp add: skips_to_def)
  have r: "walk (Suc n) tokens c = Some (Inr (Null, max c (length tokens)))"
    using assms(4) by (rule walk_only_skip)
  have l: "walk (Suc n) tokens (Suc i) = Some (Inr (left, c))"
    using assms(3) by (simp del: walk.simps)
  show ?thesis
    apply (subst walk.simps(2))
    using lt assms(2)
    apply (simp add: skip_loop_finds [OF assms(1)] l r bind_result_def del: walk.simps)
    done
qed

lemma body_loop_null_iff:
  "body_loop n tokens current token body = Some (Inr (r, c)) \<Longrightarrow> (r = None) = (length tokens \<le> c)"
proof (induction n arbitrary: current token body)
  case 0
  then show ?case by simp
next
  case (Suc n)
  show ?case
  proof (cases "length tokens \<le> current")
    case True
    with Suc.prems show ?thesis by simp
  next
    case False
    show ?thesis
    proof (cases "tok_type (tokens ! current) \<noteq> PUNCTUATION \<or> tok_value (tokens ! current) \<noteq> ''}''")
      case close: False
      with False Suc.prems show ?thesis by auto
    next
      case True
      with False Suc.prems obtain stmt c' where
        w: "walk n tokens current = Some (Inr (stmt, c'))"
        and k: "(if length tokens \<le> c' then Some (Inr (None, c'))
                 else body_loop n tokens c' (tokens ! c') (body @ [stmt])) = Some (Inr (r, c))"
        by (auto simp: bind_result_def split: option.splits sum.splits)
      show ?thesis
      proof (cases "length tokens \<le> c'")
        case True
        with k show ?thesis by simp
      next
        case False
        with k Suc.IH show ?thesis by simp
      qed
    qed
  qed
qed

lemma walk_block_at_end:
  assumes "skips_to tokens current i" and "tok_type (tokens ! i) = PUNCTUATION"
    and "tok_value (tokens ! i) = ''{''"
    and "body_loop (Suc n) tokens (i + 1) (tokens ! i) [] = Some (Inr (r, c))" and "length tokens \<le> c"
  shows "walk (Suc (Suc n)) tokens current = Some (Inr (Null, c))"
proof -
  have lt: "current < length tokens" using assms(1) by (simp add: skips_to_def)
  have "r = None" using body_loop_null_iff [OF assms(4)] assms(5) by simp
  with assms(4) have b: "body_loop (Suc n) tokens (Suc i) (tokens ! i) [] = Some (Inr (None, c))"
    by (simp del: body_loop.simps)
  show ?thesis
    apply (subst walk.simps(2))
    using lt assms(2,3)
    apply (simp add: skip_loop_finds [OF assms(1)] b bind_result_def del: walk.simps body_loop.simps)
    done
qed

lemma body_loop_one_statement:
  assumes "i + 1 < length tokens"
    and "tok_type (tokens ! (i + 1)) \<noteq> PUNCTUATION \<or> tok_value (tokens ! (i + 1)) \<noteq> ''}''"
    and "walk n tokens (i + 1) = Some (Inr (stmt, c))" and "length tokens \<le> c"
  shows "body_loop (Suc n) tokens (i + 1) token [] = Some (Inr (None, c))"
  using assms by (auto simp: bind_result_def simp del: walk.simps)

lemma parse_loop_null_at_end:
  assumes "current < length tokens" and "walk (Suc n) tokens current = Some (Inr (Null, c))"
    and "length tokens \<le> c"
  shows "parse_loop (Suc (Suc n)) tokens current body = Some (Inr body)"
  using assms by (simp add: bind_result_def del: walk.simps)

lemma parse_null_at_end:
  assumes "tokens \<noteq> []" and "walk (Suc n) tokens 0 = Some (Inr (Null, c))" and "length tokens \<le> c"
  shows "parse (Suc (Suc n)) tokens = Some (Inr (Program []
           \<lparr>pos_line = tok_line (tokens ! 0), pos_start = tok_start (tokens ! 0),
            pos_end = tok_end (tokens ! (length tokens - 1))\<rparr>))"
proof -
  have "parse_loop (Suc (Suc n)) tokens 0 [] = Some (Inr [])"
    using assms by (intro parse_loop_null_at_end) auto
  with assms(1) show ?thesis
    unfolding parse_def by (simp add: bind_result_def del: parse_loop.simps)
qed

section \<open>Tokens that \<open>walk\<close> does not consume\<close>

lemma parse_stuck_at_start:
  assumes "tokens \<noteq> []"
    and "\<not> List.member skipTokens (tok_type (tokens ! 0))"
    and "tok_type (tokens ! 0) = KEYWORD \<and> tok_value (tokens ! 0) \<notin> {''return'', ''const'', ''function''}
         \<or> tok_type (tokens ! 0) = PUNCTUATION \<and> tok_value (tokens ! 0) \<noteq> ''{''
            \<and> \<not> List.member skipPunctuation (tok_value (tokens ! 0))"
  shows "parse n tokens = None"
proof -
  have "parse_loop n tokens 0 [] = None"
    using assms by (intro parse_loop_stuck walk_falls_through) auto
  with assms(1) show ?thesis by (simp add: parse_def bind_result_def)
qed

section \<open>Inputs on which the first lexer and parser do not return\<close>

lemma tokenize_open_comment: "newline \<notin> set rest \<Longrightarrow> tokenize (''//'' @ rest) = None"
proof -
  assume a: "newline \<notin> set rest"
  have "comment_loop (''//'' @ rest) 0 [] (Some (CHR ''/'')) = None"
  proof (rule comment_loop_diverges)
    show "\<forall>i>0. i < length (''//'' @ rest) \<longrightarrow> (''//'' @ rest) ! i \<noteq> newline"
      using a by (auto simp: nth_Cons' newline_def in_set_conv_nth)
    show "Some (CHR ''/'') \<noteq> Some newline" by (simp add: newline_def)
  qed
  then show ?thesis
    unfolding tokenize_def
    by (subst tokenize_loop.simps)
       (simp add: newline_def char_at_def test_space_def to_str_def is_space_def)
qed

lemma tokenize_open_string:
  assumes "q = squote \<or> q = dquote" and "q \<notin> set rest"
  shows "tokenize (q # rest) = None"
proof -
  have "string_loop (q # rest) q 1 [] (char_at (q # rest) 1) = None"
  proof (rule string_loop_diverges)
    show "\<forall>i>1. i < length (q # rest) \<longrightarrow> (q # rest) ! i \<noteq> q"
      using assms(2) by (auto simp: nth_Cons' in_set_conv_nth)
    show "char_at (q # rest) 1 \<noteq> Some q"
      using assms(2) by (cases rest) (auto simp: char_at_def)
  qed
  then show ?thesis
    using assms(1) unfolding tokenize_def
    by (subst tokenize_loop.simps)
       (auto simp: newline_def squote_def dquote_def test_space_def to_str_def is_space_def
          test_digit_def is_digit_def)
qed

lemma tokenize_unexpected_first:
  "unmatched c \<Longrightarrow> tokenize (c # rest) = Some (Inl (Thrown_TypeError (''Unexpected character: '' @ [c])))"
  unfolding tokenize_def using tokenize_loop_unexpected [of 0 "c # rest" 1 0 "[]"] by simp

lemma parse_b_empty:
  "parse_b (Suc n) [] = Some \<lparr>pb_body = [], pb_tokens = [], pb_range = (0, 0), pb_loc = createLoc 1 0 1 0\<rparr>"
  by (simp add: parse_b_def createLoc_def)

lemma let_tokens: "tokenize ''let x = 42;'' = Some (Inr
  [\<lparr>tok_type = KEYWORD, tok_value = ''let'', tok_line = 1, tok_start = 0, tok_end = 3\<rparr>,
   \<lparr>tok_type = WHITESPACE, tok_value = '' '', tok_line = 1, tok_start = 2, tok_end = 3\<rparr>,
   \<lparr>tok_type = IDENTIFIER, tok_value = ''x'', tok_line = 1, tok_start = 4, tok_end = 5\<rparr>,
   \<lparr>tok_type = WHITESPACE, tok_value = '' '', tok_line = 1, tok_start = 4, tok_end = 5\<rparr>,
   \<lparr>tok_type = OPERATOR, tok_value = ''='', tok_line = 1, tok_start = 6, tok_end = 7\<rparr>,
   \<lparr>tok_type = WHITESPACE, tok_value = '' '', tok_line = 1, tok_start = 6, tok_end = 7\<rparr>,
   \<lparr>tok_type = NUMBER, tok_value = ''42'', tok_line = 1, tok_start = 8, tok_end = 10\<rparr>,
   \<lparr>tok_type = PUNCTUATION, tok_value = '';'', tok_line = 1, tok_start = 9, tok_end = 10\<rparr>])"
  by code_simp

section \<open>The claims\<close>

text \<open>
  \<^bold>\<open>C1.\<close> The claim: whenever \<open>tokenize\<close> returns, concatenating the values of the
  tokens gives back the source, string quotes included.  The lexer of
  \<open>src/unnamed/part_000\<close> does that (\<open>tokenize_b_lossless\<close>).  The lexer of
  \<open>src/parser.js\<close> starts the value of a string token empty and appends the closing
  quote only: on the three characters \<open>'a'\<close> it returns one \<open>STRING\<close> token of value
  \<open>a'\<close>, and the concatenation of the values is not the source.
\<close>

theorem tokenize_string_drops_opening_quote:
  "tokenize (squote # ''a'' @ [squote])
     = Some (Inr [\<lparr>tok_type = STRING, tok_value = ''a'' @ [squote], tok_line = 1,
                    tok_start = 0, tok_end = 2\<rparr>])
   \<and> concat (map tok_value [\<lparr>tok_type = STRING, tok_value = ''a'' @ [squote], tok_line = 1,
                                tok_start = 0, tok_end = 2\<rparr>])
       \<noteq> squote # ''a'' @ [squote]"
  by code_simp

text \<open>
  \<^bold>\<open>C2.\<close> The claim: \<open>tokenize\<close> and \<open>parse\<close> return on every finite input, also on a
  \<open>//\<close> comment that reaches the end of the input.  On the source \<open>//\<close> the comment
  loop of \<open>tokenize\<close> never leaves, and on the tokens of the source \<open>}\<close> the main loop
  of \<open>parse\<close> calls \<open>walk\<close> for ever, since \<open>walk\<close> returns \<open>null\<close> for that token
  without moving the cursor.
\<close>

theorem tokenize_and_parse_do_not_return:
  "tokenize ''//'' = None
   \<and> tokenize ''}'' = Some (Inr [\<lparr>tok_type = PUNCTUATION, tok_value = ''}'', tok_line = 1,
                                   tok_start = - 1, tok_end = 0\<rparr>])
   \<and> (\<forall>n. parse n [\<lparr>tok_type = PUNCTUATION, tok_value = ''}'', tok_line = 1,
                       tok_start = - 1, tok_end = 0\<rparr>] = None)"
proof -
  have "tokenize (''//'' @ []) = None"
    by (rule tokenize_open_comment) simp
  moreover have "tokenize ''}'' = Some (Inr [\<lparr>tok_type = PUNCTUATION, tok_value = ''}'', tok_line = 1,
                                   tok_start = - 1, tok_end = 0\<rparr>])"
    by code_simp
  moreover have "parse n [\<lparr>tok_type = PUNCTUATION, tok_value = ''}'', tok_line = 1,
                       tok_start = - 1, tok_end = 0\<rparr>] = None" for n
    by (rule parse_stuck_at_start) (simp_all add: skipTokens_def skipPunctuation_def)
  ultimately show ?thesis by simp
qed

text \<open>
  \<^bold>\<open>C3.\<close> The claim: a string literal that is not closed makes \<open>tokenize\<close> fail with an
  \<open>UnterminatedString\<close> error, without scanning past the end of the source; so does
  \<open>'abc\<close>.  On \<open>'abc\<close> the string loop reads past the end and never leaves:
  \<open>tokenize\<close> neither returns nor throws.
\<close>

theorem tokenize_unterminated_string_never_returns:
  "tokenize (squote # ''abc'') = None"
  by (rule tokenize_open_string) (simp_all add: squote_def)

text \<open>
  \<^bold>\<open>C4.\<close> The claim: when the tokens end while a construct is incomplete, \<open>parse\<close> fails
  with a \<open>ParseError\<close> and never returns a partial result.  On the tokens of \<open>+ 1\<close>, an
  operator with one operand, \<open>parse\<close> returns a \<open>Program\<close> with an empty body.
\<close>

theorem parse_missing_operand_counterexample:
  "parse_source 10 ''+ 1''
     = Some (Inr (Program [] \<lparr>pos_line = 1, pos_start = 0, pos_end = 3\<rparr>))"
  by code_simp

text \<open>
  \<^bold>\<open>C4, as amended.\<close> \<open>parse\<close> has no \<open>ParseError\<close>; at the end of the tokens \<open>walk\<close>
  returns \<open>null\<close>, in any token list and at any cursor:
  \<^item> where no token or only whitespace, newline and comment tokens remain, \<open>walk\<close>
    returns \<open>null\<close> with the cursor at the end;
  \<^item> for an operator, reached over any skipped tokens, whose first operand (whatever it
    is, also \<open>null\<close>) leaves nothing but skipped tokens, \<open>walk\<close> returns \<open>null\<close>;
  \<^item> for a \<open>{\<close> whose body loop comes back with the cursor at or past the end,
    \<open>walk\<close> returns \<open>null\<close>, and the body loop returns \<open>null\<close> exactly when the cursor
    is at or past the end;
  \<^item> when \<open>walk\<close> returns \<open>null\<close> with the cursor at or past the end, the main loop
    of \<open>parse\<close> adds no node and returns the body it has built; from the first token,
    \<open>parse\<close> returns a \<open>Program\<close> with an empty body;
  \<^item> the body of the \<open>Program\<close> that \<open>parse\<close> returns never contains \<open>null\<close>.
\<close>

theorem parse_incomplete_input_yields_null:
  "(only_skip_from tokens current \<longrightarrow>
      walk (Suc n) tokens current = Some (Inr (Null, max current (length tokens))))
   \<and> (skips_to ts cur i \<and> tok_type (ts ! i) = OPERATOR
        \<and> walk (Suc k) ts (i + 1) = Some (Inr (left, c)) \<and> only_skip_from ts c \<longrightarrow>
        walk (Suc (Suc k)) ts cur = Some (Inr (Null, max c (length ts))))
   \<and> (skips_to bs bcur j \<and> tok_type (bs ! j) = PUNCTUATION \<and> tok_value (bs ! j) = ''{''
        \<and> body_loop (Suc l) bs (j + 1) (bs ! j) [] = Some (Inr (r, d)) \<and> length bs \<le> d \<longrightarrow>
        walk (Suc (Suc l)) bs bcur = Some (Inr (Null, d)))
   \<and> (body_loop l' bs' bcur' token stmts = Some (Inr (r', d')) \<longrightarrow> (r' = None) = (length bs' \<le> d'))
   \<and> (pcur < length ps \<and> walk (Suc q) ps pcur = Some (Inr (Null, e)) \<and> length ps \<le> e \<longrightarrow>
        parse_loop (Suc (Suc q)) ps pcur body = Some (Inr body))
   \<and> (ps' \<noteq> [] \<and> walk (Suc q') ps' 0 = Some (Inr (Null, e')) \<and> length ps' \<le> e' \<longrightarrow>
        parse (Suc (Suc q')) ps' = Some (Inr (Program []
          \<lparr>pos_line = tok_line (ps' ! 0), pos_start = tok_start (ps' ! 0),
           pos_end = tok_end (ps' ! (length ps' - 1))\<rparr>)))
   \<and> (parse m tokens' = Some (Inr (Program body' p)) \<longrightarrow> Null \<notin> set body')"
  using walk_only_skip [of tokens current n] walk_operator_at_end [of ts cur i k left c]
    walk_block_at_end [of bs bcur j l r d] body_loop_null_iff [of l' bs' bcur' token stmts r' d']
    parse_loop_null_at_end [of pcur ps q e body] parse_null_at_end [of ps' q' e']
    parse_no_null [of m tokens' body' p]
  by blast

theorem parse_incomplete_input_yields_null_witness:
  "tokenize ''+ 1 '' = Some (Inr tokens_plus_one)
   \<and> tokenize ''{ 1 '' = Some (Inr tokens_brace_one)
   \<and> tokenize ''1;'' = Some (Inr tokens_one_semi)
   \<and> only_skip_from tokens_plus_one 3
   \<and> walk 1 tokens_plus_one 3 = Some (Inr (Null, 4))
   \<and> skips_to tokens_plus_one 0 0
   \<and> tok_type (tokens_plus_one ! 0) = OPERATOR
   \<and> walk 2 tokens_plus_one 1
       = Some (Inr (Literal ''1'' \<lparr>pos_line = 1, pos_start = 2, pos_end = 3\<rparr>, 3))
   \<and> walk 3 tokens_plus_one 0 = Some (Inr (Null, 4))
   \<and> skips_to tokens_brace_one 0 0
   \<and> tok_type (tokens_brace_one ! 0) = PUNCTUATION \<and> tok_value (tokens_brace_one ! 0) = ''{''
   \<and> body_loop 3 tokens_brace_one 1 (tokens_brace_one ! 0) [] = Some (Inr (None, 4))
   \<and> length tokens_brace_one \<le> 4
   \<and> walk 4 tokens_brace_one 0 = Some (Inr (Null, 4))
   \<and> parse_loop 4 tokens_plus_one 0 [] = Some (Inr [])
   \<and> parse 4 tokens_plus_one
       = Some (Inr (Program [] \<lparr>pos_line = 1, pos_start = 0, pos_end = 3\<rparr>))
   \<and> parse 5 tokens_one_semi
       = Some (Inr (Program [Literal ''1'' \<lparr>pos_line = 1, pos_start = 0, pos_end = 1\<rparr>]
                      \<lparr>pos_line = 1, pos_start = 0, pos_end = 1\<rparr>))
   \<and> Null \<notin> set [Literal ''1'' \<lparr>pos_line = 1, pos_start = 0, pos_end = 1\<rparr>]"
proof -
  have t: "tokenize ''+ 1 '' = Some (Inr tokens_plus_one)"
    "tokenize ''{ 1 '' = Some (Inr tokens_brace_one)"
    "tokenize ''1;'' = Some (Inr tokens_one_semi)"
    by code_simp+
  have h1: "only_skip_from tokens_plus_one 3" by code_simp
  have h2: "skips_to tokens_plus_one 0 0" "tok_type (tokens_plus_one ! 0) = OPERATOR"
    by code_simp+
  have h3: "walk (Suc 1) tokens_plus_one (0 + 1)
       = Some (Inr (Literal ''1'' \<lparr>pos_line = 1, pos_start = 2, pos_end = 3\<rparr>, 3))"
    by code_simp
  have h4: "skips_to tokens_brace_one 0 0" "tok_type (tokens_brace_one ! 0) = PUNCTUATION"
    "tok_value (tokens_brace_one ! 0) = ''{''"
    by code_simp+
  have h5: "body_loop (Suc 2) tokens_brace_one (0 + 1) (tokens_brace_one ! 0) [] = Some (Inr (None, 4))"
    by code_simp
  have h6: "length tokens_plus_one = 4" "length tokens_brace_one = 4" "tokens_plus_one \<noteq> []"
    "tok_line (tokens_plus_one ! 0) = 1" "tok_start (tokens_plus_one ! 0) = 0"
    "tok_end (tokens_plus_one ! (length tokens_plus_one - 1)) = 3"
    by code_simp+
  have h7: "parse 5 tokens_one_semi
       = Some (Inr (Program [Literal ''1'' \<lparr>pos_line = 1, pos_start = 0, pos_end = 1\<rparr>]
                      \<lparr>pos_line = 1, pos_start = 0, pos_end = 1\<rparr>))"
    by code_simp
  note inst = parse_incomplete_input_yields_null
    [where tokens = tokens_plus_one and current = 3 and n = 0
       and ts = tokens_plus_one and cur = 0 and i = 0 and k = 1
       and left = "Literal ''1'' \<lparr>pos_line = 1, pos_start = 2, pos_end = 3\<rparr>" and c = 3
       and bs = tokens_brace_one and bcur = 0 and j = 0 and l = 2 and r = None and d = 4
       and l' = 3 and bs' = tokens_brace_one and bcur' = 1 and token = "tokens_brace_one ! 0"
       and stmts = "[]" and r' = None and d' = 4
       and ps = tokens_plus_one and pcur = 0 and q = 2 and e = 4 and body = "[]"
       and ps' = tokens_plus_one and q' = 2 and e' = 4
       and m = 5 and tokens' = tokens_one_semi
       and body' = "[Literal ''1'' \<lparr>pos_line = 1, pos_start = 0, pos_end = 1\<rparr>]"
       and p = "\<lparr>pos_line = 1, pos_start = 0, pos_end = 1\<rparr>"]
  have a: "walk (Suc 0) tokens_plus_one 3 = Some (Inr (Null, 4))"
    using inst h1 h6 by (simp del: walk.simps)
  have b: "walk (Suc (Suc 1)) tokens_plus_one 0 = Some (Inr (Null, 4))"
    using inst h1 h2 h3 h6 by (simp del: walk.simps)
  have c: "walk (Suc (Suc 2)) tokens_brace_one 0 = Some (Inr (Null, 4))"
    using inst h4 h5 h6 by (simp del: walk.simps body_loop.simps)
  have d: "parse_loop (Suc (Suc 2)) tokens_plus_one 0 [] = Some (Inr [])"
    "parse (Suc (Suc 2)) tokens_plus_one
       = Some (Inr (Program [] \<lparr>pos_line = 1, pos_start = 0, pos_end = 3\<rparr>))"
    using inst b h6 by (simp_all del: walk.simps parse_loop.simps add: eval_nat_numeral)
  have e: "Null \<notin> set [Literal ''1'' \<lparr>pos_line = 1, pos_start = 0, pos_end = 1\<rparr>]"
    using inst h7 by blast
  show ?thesis
    using t h1 h2 h3 h4 h5 h6 h7 a b c d e
    by (simp del: walk.simps body_loop.simps parse_loop.simps add: eval_nat_numeral)
qed

text \<open>
  \<^bold>\<open>C5.\<close> The claim: a character that matches no lexical rule makes \<open>tokenize\<close> fail
  with an \<open>UnexpectedCharacter\<close> error that carries the character and its position,
  and no token is emitted for it.  On \<open>#\<close> the lexer of \<open>src/unnamed/part_000\<close>
  returns a \<open>Punctuation\<close> token, and the \<open>TypeError\<close> the lexer of
  \<open>src/parser.js\<close> throws has a message and no position.
\<close>

theorem unexpected_character_counterexample:
  "tokenize_b ''#'' = [\<lparr>b_type = ''Punctuation'', b_value = ''#'', b_range = (0, 1),
                        b_loc = createLoc 1 0 1 1\<rparr>]
   \<and> tokenize ''#'' = Some (Inl (Thrown_TypeError ''Unexpected character: #''))"
  by code_simp

text \<open>
  \<^bold>\<open>C5, as amended.\<close> In the lexer of \<open>src/parser.js\<close>, when the main loop stands at a
  character that passes none of its tests, \<open>tokenize\<close> throws a \<open>TypeError\<close> whose
  message is \<open>Unexpected character: \<close> followed by the character, whatever was scanned
  before; in particular when it is the first character of the source.  In the lexer
  of \<open>src/unnamed/part_000\<close>, at a character that is not whitespace, \<open>/\<close>, a digit, a
  letter or \<open>_\<close>, the main loop appends a one-character \<open>Punctuation\<close> token and goes
  on behind it, in any state; and for every such character of a source, at offset
  \<open>i\<close>, the tokens \<open>tokenize\<close> returns hold a \<open>Punctuation\<close> token of that character
  with the range \<open>i\<close> to \<open>i + 1\<close>.
\<close>

theorem unexpected_character_behaviour:
  "(current < length code \<and> unmatched (code ! current) \<longrightarrow>
      tokenize_loop code current line column tokens
        = Some (Inl (Thrown_TypeError (''Unexpected character: '' @ [code ! current]))))
   \<and> (unmatched c \<longrightarrow>
        tokenize (c # rest) = Some (Inl (Thrown_TypeError (''Unexpected character: '' @ [c]))))
   \<and> (cur < length source \<and> other_character (source ! cur) \<longrightarrow>
        tokenize_b_loop source cur ln col insideString insideRegex toks
          = tokenize_b_loop source (cur + 1) ln (col + 1) insideString insideRegex
              (addToken toks ''Punctuation'' [source ! cur] cur (cur + 1)
                 (createLoc ln col ln (col + 1))))
   \<and> (i < length src \<and> other_character (src ! i) \<longrightarrow>
        (\<exists>l. \<lparr>b_type = ''Punctuation'', b_value = [src ! i], b_range = (i, i + 1), b_loc = l\<rparr>
             \<in> set (tokenize_b src)))"
  using tokenize_loop_unexpected [of current code line column tokens]
    tokenize_unexpected_first [of c rest]
    tokenize_b_loop_other_step [of cur source ln col insideString insideRegex toks]
    tokenize_b_other_token [of i src]
  by blast

theorem unexpected_character_behaviour_witness:
  "unmatched (CHR ''#'') \<and> other_character (CHR ''#'')
   \<and> tokenize_loop ''1#'' 1 1 1 [] = Some (Inl (Thrown_TypeError ''Unexpected character: #''))
   \<and> tokenize ''#1'' = Some (Inl (Thrown_TypeError ''Unexpected character: #''))
   \<and> tokenize_b_loop ''1#'' 1 1 1 False False []
       = tokenize_b_loop ''1#'' 2 1 2 False False
           [\<lparr>b_type = ''Punctuation'', b_value = ''#'', b_range = (1, 2), b_loc = createLoc 1 1 1 2\<rparr>]
   \<and> tokenize_b ''1#''
       = [\<lparr>b_type = ''Numeric'', b_value = ''1'', b_range = (0, 1), b_loc = createLoc 1 0 1 1\<rparr>,
          \<lparr>b_type = ''Punctuation'', b_value = ''#'', b_range = (1, 2), b_loc = createLoc 1 1 1 2\<rparr>]
   \<and> (\<exists>l. \<lparr>b_type = ''Punctuation'', b_value = ''#'', b_range = (1, 2), b_loc = l\<rparr>
          \<in> set (tokenize_b ''1#''))"
proof -
  have u: "unmatched (CHR ''#'')" "other_character (CHR ''#'')" by code_simp+
  have e: "tokenize_b ''1#''
       = [\<lparr>b_type = ''Numeric'', b_value = ''1'', b_range = (0, 1), b_loc = createLoc 1 0 1 1\<rparr>,
          \<lparr>b_type = ''Punctuation'', b_value = ''#'', b_range = (1, 2), b_loc = createLoc 1 1 1 2\<rparr>]"
    by code_simp
  note inst = unexpected_character_behaviour
    [where current = 1 and code = "''1#''" and line = 1 and column = 1 and tokens = "[]"
       and c = "CHR ''#''" and rest = "''1''"
       and cur = 1 and source = "''1#''" and ln = 1 and col = 1 and insideString = False
       and insideRegex = False and toks = "[]"
       and i = 1 and src = "''1#''"]
  show ?thesis
    using inst u e by (simp add: addToken_def numeral_2_eq_2)
qed

text \<open>
  \<^bold>\<open>C6.\<close> The claim: \<open>parse(tokenize("function add(a, b) { return a; }"))\<close> is a
  \<open>FunctionDeclaration\<close> named \<open>add\<close> with the parameters \<open>a\<close> and \<open>b\<close> and a body of
  one \<open>ReturnStatement\<close>.  \<open>walk\<close> skips \<open>)\<close> and \<open>{\<close> by two increments of the cursor
  and does not count the space between them, takes the \<open>{\<close> for a statement of the
  body, and returns \<open>null\<close> when the tokens end: the result is a \<open>Program\<close> with an
  empty body.
\<close>

theorem parse_function_declaration_is_dropped:
  "parse_source 40 ''function add(a, b) { return a; }''
     = Some (Inr (Program [] \<lparr>pos_line = 1, pos_start = 0, pos_end = 31\<rparr>))"
  by code_simp

text \<open>
  \<^bold>\<open>C7.\<close> The claim: \<open>const\<close>, \<open>let\<close> or \<open>var\<close>, an identifier, an optional \<open>=\<close> with
  an initializer and an optional \<open>;\<close> give a \<open>VariableDeclaration\<close> of that kind with one
  declarator; \<open>const x = 42;\<close> gives the initializer \<open>Literal("42")\<close>.  \<open>walk\<close> tests
  for \<open>=\<close> at the token after the identifier, which is the space: on \<open>const x = 42;\<close>
  the initializer is \<open>null\<close>.  Only \<open>const\<close> is handled (\<open>variableKeywords\<close> is never
  read): on the tokens of \<open>let x = 42;\<close> \<open>parse\<close> never returns.
\<close>

theorem parse_variable_declaration_loses_initializer:
  "parse_source 10 ''const x = 42;''
     = Some (Inr (Program
         [VariableDeclaration
            [VariableDeclarator (Identifier ''x'' \<lparr>pos_line = 1, pos_start = 6, pos_end = 7\<rparr>) Null]
            ''const'' \<lparr>pos_line = 1, pos_start = 0, pos_end = 5\<rparr>]
         \<lparr>pos_line = 1, pos_start = 0, pos_end = 12\<rparr>))
   \<and> (\<forall>n. parse_source n ''let x = 42;'' = None)"
proof -
  have "parse_source n ''let x = 42;'' = None" for n
    unfolding parse_source_def let_tokens
    by (simp add: bind_result_def parse_stuck_at_start skipTokens_def)
  moreover have "parse_source 10 ''const x = 42;''
     = Some (Inr (Program
         [VariableDeclaration
            [VariableDeclarator (Identifier ''x'' \<lparr>pos_line = 1, pos_start = 6, pos_end = 7\<rparr>) Null]
            ''const'' \<lparr>pos_line = 1, pos_start = 0, pos_end = 5\<rparr>]
         \<lparr>pos_line = 1, pos_start = 0, pos_end = 12\<rparr>))"
    by code_simp
  ultimately show ?thesis by simp
qed

text \<open>
  \<^bold>\<open>C8.\<close> The claim: the span of a node runs from the start of the first token consumed
  for it to the end of the last one.  Every node copies \<open>start\<close> and \<open>end\<close> from one
  token.  On \<open>+1 2\<close> the \<open>BinaryExpression\<close> has the span 0 to 1 of the operator,
  while its last token, the literal \<open>2\<close>, ends at 4.  On \<open>function f(){1}\<close> the
  body loop assigns \<open>token\<close> anew, and the \<open>FunctionDeclaration\<close> has the span 13 to
  14 of the closing \<open>}\<close>, while its first token, the keyword, starts at 0.
\<close>

theorem binary_expression_span_is_operator_span:
  "parse_source 10 ''+1 2''
     = Some (Inr (Program
         [BinaryExpression ''+''
            (Literal ''1'' \<lparr>pos_line = 1, pos_start = 1, pos_end = 2\<rparr>)
            (Literal ''2'' \<lparr>pos_line = 1, pos_start = 3, pos_end = 4\<rparr>)
            \<lparr>pos_line = 1, pos_start = 0, pos_end = 1\<rparr>]
         \<lparr>pos_line = 1, pos_start = 0, pos_end = 4\<rparr>))
   \<and> parse_source 10 ''function f(){1}''
     = Some (Inr (Program
         [FunctionDeclaration
            (Identifier ''f'' \<lparr>pos_line = 1, pos_start = 9, pos_end = 10\<rparr>) []
            (BlockStatement [Literal ''1'' \<lparr>pos_line = 1, pos_start = 13, pos_end = 14\<rparr>] None)
            \<lparr>pos_line = 1, pos_start = 13, pos_end = 14\<rparr>]
         \<lparr>pos_line = 1, pos_start = 0, pos_end = 14\<rparr>))"
  by code_simp

text \<open>
  \<^bold>\<open>C9.\<close> The claim: \<open>tokenize("")\<close> is the empty sequence and \<open>parse([])\<close> is a
  \<open>Program\<close> with an empty body.  Both lexers return the empty sequence.  The first
  \<open>parse\<close> reads \<open>tokens[0].line\<close> before anything else and throws on the empty array;
  the second \<open>parse\<close> of the same file guards that read (\<open>parse_b_empty\<close>).
\<close>

theorem parse_empty_token_list_throws:
  "tokenize [] = Some (Inr []) \<and> tokenize_b [] = []
   \<and> (\<forall>n. parse n [] = Some (Inl (Undefined_read ''line'')))"
proof -
  have "tokenize [] = Some (Inr []) \<and> tokenize_b [] = []" by code_simp
  then show ?thesis by (simp add: parse_def)
qed

text \<open>
  \<^bold>\<open>C10.\<close> In every token either lexer returns, the end offset minus the start offset
  is the length of the value.
\<close>

theorem tokens_internally_well_formed:
  "(tokenize code = Some (Inr toks) \<longrightarrow> (\<forall>t \<in> set toks. well_formed t))
   \<and> (\<forall>t \<in> set (tokenize_b source). well_formed_b t)"
proof -
  have "list_all well_formed toks" if "tokenize code = Some (Inr toks)"
    using tokenize_loop_well_formed [of code 0 1 0 "[]" "Inr toks"] that
    by (simp add: tokenize_def)
  then show ?thesis
    using tokenize_b_well_formed [of source] by (simp add: list_all_iff)
qed

theorem tokens_internally_well_formed_witness:
  "tokenize ''x=1;''
     = Some (Inr [\<lparr>tok_type = IDENTIFIER, tok_value = ''x'', tok_line = 1, tok_start = 0, tok_end = 1\<rparr>,
                  \<lparr>tok_type = OPERATOR, tok_value = ''='', tok_line = 1, tok_start = 1, tok_end = 2\<rparr>,
                  \<lparr>tok_type = NUMBER, tok_value = ''1'', tok_line = 1, tok_start = 2, tok_end = 3\<rparr>,
                  \<lparr>tok_type = PUNCTUATION, tok_value = '';'', tok_line = 1, tok_start = 2, tok_end = 3\<rparr>])
   \<and> list_all well_formed
        [\<lparr>tok_type = IDENTIFIER, tok_value = ''x'', tok_line = 1, tok_start = 0, tok_end = 1\<rparr>,
         \<lparr>tok_type = OPERATOR, tok_value = ''='', tok_line = 1, tok_start = 1, tok_end = 2\<rparr>,
         \<lparr>tok_type = NUMBER, tok_value = ''1'', tok_line = 1, tok_start = 2, tok_end = 3\<rparr>,
         \<lparr>tok_type = PUNCTUATION, tok_value = '';'', tok_line = 1, tok_start = 2, tok_end = 3\<rparr>]
   \<and> list_all well_formed_b (tokenize_b ''x=1;'')"
proof -
  have t: "tokenize ''x=1;''
     = Some (Inr [\<lparr>tok_type = IDENTIFIER, tok_value = ''x'', tok_line = 1, tok_start = 0, tok_end = 1\<rparr>,
                  \<lparr>tok_type = OPERATOR, tok_value = ''='', tok_line = 1, tok_start = 1, tok_end = 2\<rparr>,
                  \<lparr>tok_type = NUMBER, tok_value = ''1'', tok_line = 1, tok_start = 2, tok_end = 3\<rparr>,
                  \<lparr>tok_type = PUNCTUATION, tok_value = '';'', tok_line = 1, tok_start = 2, tok_end = 3\<rparr>])"
    by code_simp
  show ?thesis
    using tokens_internally_well_formed
      [of "''x=1;''"
          "[\<lparr>tok_type = IDENTIFIER, tok_value = ''x'', tok_line = 1, tok_start = 0, tok_end = 1\<rparr>,
            \<lparr>tok_type = OPERATOR, tok_value = ''='', tok_line = 1, tok_start = 1, tok_end = 2\<rparr>,
            \<lparr>tok_type = NUMBER, tok_value = ''1'', tok_line = 1, tok_start = 2, tok_end = 3\<rparr>,
            \<lparr>tok_type = PUNCTUATION, tok_value = '';'', tok_line = 1, tok_start = 2, tok_end = 3\<rparr>]"
          "''x=1;''"]
      t
    by (simp add: list_all_iff)
qed

end
